theory Spec2Isabelle
  imports Main "HOL-Library.Word"
begin

unbundle bit_operations_syntax

section \<open>Data model\<close>

text \<open>
  The parser (class AseReader, src/public/ase-reader.js) reads a little-endian byte buffer
  through a cursor and fills in its own fields; the renderer (class AseCanvasRenderer,
  src/electron/preload.js) keeps the finished reader object as its document (aseData).
  JavaScript numbers that hold unsigned values are natural numbers here, signed ones are
  integers, buffer bytes are 8-bit words. A property that a JavaScript object may lack is
  an option. An exception is a value of type error; a function that can throw returns
  error + result. Fields carry the names of the source; where two objects share a
  property name, or the name is reserved, the field has a prefix (layerType, celOpacity,
  colorName, tagFrom, tagTo, tagAnimDirection, tagColor, tagName, profileType,
  profileFlag). Strings are lists of UTF-16 code units.
\<close>

type_synonym byte = "8 word"

datatype error = RangeError | TypeError

text \<open>
  layer.flags is a number when the layer comes from readLayerChunk; isLayerVisible also
  accepts an object with a visible property (FlagsObject b, where b is the value of
  flags.visible === true) and anything else.
\<close>

datatype flagsValue = FlagsNumber nat | FlagsObject bool | FlagsOther

record layer =
  flags :: flagsValue
  layerType :: nat
  layerChildLevel :: nat
  blendMode :: nat
  opacity :: nat
  name :: "nat list"

text \<open>
  A cel object, as readCelChunk returns it: w, h and rawCelData are present when the cel
  type is not 1 (rawCelData still undefined for a type other than 0 and 2), linkedFrame
  when it is 1. The three fields that getCelData returns form the parent record.
\<close>

record celImage =
  h :: "nat option"
  w :: "nat option"
  rawCelData :: "byte list option"

record cel = celImage +
  layerIndex :: nat
  xpos :: int
  ypos :: int
  celOpacity :: nat
  celType :: nat
  linkedFrame :: "nat option"

record frame =
  bytesInFrame :: nat
  frameDuration :: nat
  numChunks :: nat
  cels :: "cel list"

record color =
  red :: nat
  green :: nat
  blue :: nat
  alpha :: nat
  colorName :: "nat list"

record palette =
  paletteSize :: nat
  firstColor :: nat
  lastColor :: nat
  colors :: "color list"

datatype animDirection = Forward | Reverse | PingPong

record tag =
  tagFrom :: nat
  tagTo :: nat
  tagAnimDirection :: "animDirection option"
  tagColor :: "byte list"
  tagName :: "nat list"

record colorProfile =
  profileType :: nat
  profileFlag :: nat
  fGamma :: "32 word"

text \<open>
  The AseReader object: the cursor (_offset over the DataView _dv) and the document fields.
  pixelRatio is kept as the two bytes it is printed from, fGamma as the four bytes of the
  float, a tag colour as its three bytes.
\<close>

record aseReader =
  offset :: int
  dv :: "byte list"
  frames :: "frame list"
  layers :: "layer list"
  tags :: "tag list"
  fileSize :: nat
  numFrames :: nat
  width :: nat
  height :: nat
  colorDepth :: nat
  numColors :: nat
  pixelRatio :: "nat \<times> nat"
  palette :: "palette option"
  colorProfile :: "colorProfile option"

text \<open>The object the constructor builds for a buffer.\<close>

definition newAseReader :: "byte list \<Rightarrow> aseReader" where
  "newAseReader buf =
     \<lparr>offset = 0, dv = buf, frames = [], layers = [], tags = [], fileSize = 0,
      numFrames = 0, width = 0, height = 0, colorDepth = 0, numColors = 0,
      pixelRatio = (0, 0), palette = None, colorProfile = None\<rparr>"

section \<open>The byte cursor\<close>

text \<open>
  A read is a function from the reader to an error or a value with the advanced reader.
  DataView.getUintN(offset) throws RangeError unless 0 <= offset and offset + N/8 <=
  byteLength.
\<close>

type_synonym 'a rd = "aseReader \<Rightarrow> error + ('a \<times> aseReader)"

definition ret :: "'a \<Rightarrow> 'a rd" where
  "ret x s = Inr (x, s)"

definition bnd :: "'a rd \<Rightarrow> ('a \<Rightarrow> 'b rd) \<Rightarrow> 'b rd" where
  "bnd m f s = (case m s of Inl e \<Rightarrow> Inl e | Inr (x, s') \<Rightarrow> f x s')"

definition inBounds :: "aseReader \<Rightarrow> nat \<Rightarrow> bool" where
  "inBounds s n \<longleftrightarrow> 0 \<le> offset s \<and> offset s + int n \<le> int (length (dv s))"

definition byteAt :: "aseReader \<Rightarrow> nat \<Rightarrow> byte" where
  "byteAt s k = dv s ! (nat (offset s) + k)"

definition readNextByteRaw :: "byte rd" where
  "readNextByteRaw s =
     (if inBounds s 1 then Inr (byteAt s 0, s\<lparr>offset := offset s + 1\<rparr>)
      else Inl RangeError)"

definition readNextByte :: "nat rd" where
  "readNextByte = bnd readNextByteRaw (\<lambda>b. ret (unat b))"

definition readNextWord :: "nat rd" where
  "readNextWord s =
     (if inBounds s 2
      then Inr (unat (byteAt s 0) + 256 * unat (byteAt s 1), s\<lparr>offset := offset s + 2\<rparr>)
      else Inl RangeError)"

definition readNextShort :: "int rd" where
  "readNextShort s =
     (if inBounds s 2
      then Inr (sint (word_of_nat (unat (byteAt s 0) + 256 * unat (byteAt s 1)) :: 16 word),
                s\<lparr>offset := offset s + 2\<rparr>)
      else Inl RangeError)"

definition readNextDWord :: "nat rd" where
  "readNextDWord s =
     (if inBounds s 4
      then Inr (unat (byteAt s 0) + 256 * unat (byteAt s 1) + 65536 * unat (byteAt s 2)
                  + 16777216 * unat (byteAt s 3),
                s\<lparr>offset := offset s + 4\<rparr>)
      else Inl RangeError)"

definition readNextFixed :: "(32 word) rd" where
  "readNextFixed s =
     (if inBounds s 4
      then Inr (word_of_nat (unat (byteAt s 0) + 256 * unat (byteAt s 1)
                  + 65536 * unat (byteAt s 2) + 16777216 * unat (byteAt s 3)),
                s\<lparr>offset := offset s + 4\<rparr>)
      else Inl RangeError)"

definition skipBytes :: "int \<Rightarrow> unit rd" where
  "skipBytes numBytes s = Inr ((), s\<lparr>offset := offset s + numBytes\<rparr>)"

text \<open>The loop of readNextBytes and readNextRawBytes: numBytes calls of readNextByte.\<close>

fun readBytesLoop :: "nat \<Rightarrow> (byte list) rd" where
  "readBytesLoop 0 = ret []"
| "readBytesLoop (Suc n) =
     bnd readNextByteRaw (\<lambda>b. bnd (readBytesLoop n) (\<lambda>bs. ret (b # bs)))"

text \<open>new ArrayBuffer(numBytes) throws RangeError for a negative length.\<close>

definition readNextRawBytes :: "int \<Rightarrow> (byte list) rd" where
  "readNextRawBytes numBytes =
     (if numBytes < 0 then (\<lambda>s. Inl RangeError) else readBytesLoop (nat numBytes))"

text \<open>
  Utf8ArrayToStr, producing the UTF-16 code units of the string. A continuation byte read
  past the end of the array is undefined, and undefined & 0x3f is 0. Lead bytes with a
  high nibble of 8 to 11 or 15 add nothing.
\<close>

fun Utf8ArrayToStr :: "byte list \<Rightarrow> nat list" where
  "Utf8ArrayToStr [] = []"
| "Utf8ArrayToStr (c # rest) =
     (let hi = unat (drop_bit 4 c) in
      if hi \<le> 7 then unat c # Utf8ArrayToStr rest
      else if hi = 12 \<or> hi = 13 then
        (case rest of
           [] \<Rightarrow> [unat (push_bit 6 (ucast (c AND 0x1f) :: 32 word))]
         | char2 # rest2 \<Rightarrow>
             unat (push_bit 6 (ucast (c AND 0x1f) :: 32 word) OR ucast (char2 AND 0x3f))
               # Utf8ArrayToStr rest2)
      else if hi = 14 then
        (case rest of
           [] \<Rightarrow> [unat (push_bit 12 (ucast (c AND 0x0f) :: 32 word))]
         | [char2] \<Rightarrow>
             [unat (push_bit 12 (ucast (c AND 0x0f) :: 32 word)
                    OR push_bit 6 (ucast (char2 AND 0x3f)))]
         | char2 # char3 # rest3 \<Rightarrow>
             unat (push_bit 12 (ucast (c AND 0x0f) :: 32 word)
                   OR push_bit 6 (ucast (char2 AND 0x3f)) OR ucast (char3 AND 0x3f))
               # Utf8ArrayToStr rest3)
      else Utf8ArrayToStr rest)"

definition readNextBytes :: "nat \<Rightarrow> (nat list) rd" where
  "readNextBytes numBytes = bnd (readBytesLoop numBytes) (\<lambda>bs. ret (Utf8ArrayToStr bs))"

definition readNextString :: "(nat list) rd" where
  "readNextString = bnd readNextWord (\<lambda>numBytes. readNextBytes numBytes)"

section \<open>Chunk decoding\<close>

text \<open>
  readHeader, readChunk, the chunk readers, readFrame and parse of ase-reader.js, in the
  order of their reads. A field assignment of the source is a modify step. The loops
  (over the colours of a palette, the tags, the chunks of a frame, the frames) are
  recursive functions on the count that was read.
\<close>

definition modify :: "(aseReader \<Rightarrow> aseReader) \<Rightarrow> unit rd" where
  "modify f s = Inr ((), f s)"

definition readHeader :: "nat rd" where
  "readHeader =
     bnd readNextDWord (\<lambda>fs. bnd (modify (\<lambda>s. s\<lparr>fileSize := fs\<rparr>)) (\<lambda>_.
     bnd readNextWord (\<lambda>_.
     bnd readNextWord (\<lambda>nf. bnd (modify (\<lambda>s. s\<lparr>numFrames := nf\<rparr>)) (\<lambda>_.
     bnd readNextWord (\<lambda>wd. bnd (modify (\<lambda>s. s\<lparr>width := wd\<rparr>)) (\<lambda>_.
     bnd readNextWord (\<lambda>ht. bnd (modify (\<lambda>s. s\<lparr>height := ht\<rparr>)) (\<lambda>_.
     bnd readNextWord (\<lambda>cd. bnd (modify (\<lambda>s. s\<lparr>colorDepth := cd\<rparr>)) (\<lambda>_.
     bnd (skipBytes 18) (\<lambda>_.
     bnd readNextWord (\<lambda>nc. bnd (modify (\<lambda>s. s\<lparr>numColors := nc\<rparr>)) (\<lambda>_.
     bnd readNextByte (\<lambda>pixW.
     bnd readNextByte (\<lambda>pixH. bnd (modify (\<lambda>s. s\<lparr>pixelRatio := (pixW, pixH)\<rparr>)) (\<lambda>_.
     bnd (skipBytes 92) (\<lambda>_.
     (\<lambda>s. Inr (numFrames s, s))))))))))))))))))))"

definition readChunk :: "(nat \<times> nat) rd" where
  "readChunk = bnd readNextDWord (\<lambda>cSize. bnd readNextWord (\<lambda>type. ret (cSize, type)))"

definition readColorProfileChunk :: "unit rd" where
  "readColorProfileChunk =
     bnd readNextWord (\<lambda>type.
     bnd readNextWord (\<lambda>flag.
     bnd readNextFixed (\<lambda>g.
     bnd (skipBytes 8) (\<lambda>_.
     modify (\<lambda>s. s\<lparr>colorProfile :=
       Some \<lparr>profileType = type, profileFlag = flag, fGamma = g\<rparr>\<rparr>)))))"

text \<open>The string 'none', the name of a palette colour that has none.\<close>

definition noneName :: "nat list" where
  "noneName = [110, 111, 110, 101]"

definition readPaletteColor :: "color rd" where
  "readPaletteColor =
     bnd readNextWord (\<lambda>flag.
     bnd readNextByte (\<lambda>r.
     bnd readNextByte (\<lambda>g.
     bnd readNextByte (\<lambda>b.
     bnd readNextByte (\<lambda>a.
     bnd (if flag = 1 then bnd readNextString (\<lambda>n. ret (Some n)) else ret None) (\<lambda>nm.
     ret \<lparr>red = r, green = g, blue = b, alpha = a,
          colorName = (case nm of Some n \<Rightarrow> n | None \<Rightarrow> noneName)\<rparr>))))))"

fun readPaletteColors :: "nat \<Rightarrow> color list \<Rightarrow> (color list) rd" where
  "readPaletteColors 0 cs = ret cs"
| "readPaletteColors (Suc n) cs =
     bnd readPaletteColor (\<lambda>c. readPaletteColors n (cs @ [c]))"

definition readPaletteChunk :: "palette rd" where
  "readPaletteChunk =
     bnd readNextDWord (\<lambda>psize.
     bnd readNextDWord (\<lambda>first.
     bnd readNextDWord (\<lambda>second.
     bnd (skipBytes 8) (\<lambda>_.
     bnd (readPaletteColors psize []) (\<lambda>cs.
     ret \<lparr>paletteSize = psize, firstColor = first, lastColor = second, colors = cs\<rparr>)))))"

definition readLayerChunk :: "unit rd" where
  "readLayerChunk =
     bnd readNextWord (\<lambda>fl.
     bnd readNextWord (\<lambda>type.
     bnd readNextWord (\<lambda>childLevel.
     bnd (skipBytes 4) (\<lambda>_.
     bnd readNextWord (\<lambda>blend.
     bnd readNextByte (\<lambda>opac.
     bnd (skipBytes 3) (\<lambda>_.
     bnd readNextString (\<lambda>nm.
     modify (\<lambda>s. s\<lparr>layers := layers s @
       [\<lparr>flags = FlagsNumber fl, layerType = type, layerChildLevel = childLevel,
         blendMode = blend, opacity = opac, name = nm\<rparr>]\<rparr>)))))))))"

text \<open>
  pako is an external library: None when it is not loaded (typeof pako === 'undefined'),
  otherwise its inflate function, which returns the decompressed bytes or throws (None).
\<close>

type_synonym pako = "(byte list \<Rightarrow> byte list option) option"

definition inflateCel :: "pako \<Rightarrow> nat \<Rightarrow> byte list \<Rightarrow> byte list option" where
  "inflateCel pako ctype buff =
     (if ctype = 2 then
        (case pako of
           Some inflate \<Rightarrow> (case inflate buff of Some out \<Rightarrow> Some out | None \<Rightarrow> Some buff)
         | None \<Rightarrow> Some buff)
      else if ctype = 0 then Some buff
      else None)"

definition readCelChunk :: "pako \<Rightarrow> nat \<Rightarrow> cel rd" where
  "readCelChunk pako chunkSize =
     bnd readNextWord (\<lambda>li.
     bnd readNextShort (\<lambda>x.
     bnd readNextShort (\<lambda>y.
     bnd readNextByte (\<lambda>opac.
     bnd readNextWord (\<lambda>ctype.
     bnd (skipBytes 7) (\<lambda>_.
     if ctype \<noteq> 1 then
       bnd readNextWord (\<lambda>cw.
       bnd readNextWord (\<lambda>ch.
       bnd (readNextRawBytes (int chunkSize - 26)) (\<lambda>buff.
       ret \<lparr>h = Some ch, w = Some cw, rawCelData = inflateCel pako ctype buff,
            layerIndex = li, xpos = x, ypos = y, celOpacity = opac, celType = ctype,
            linkedFrame = None\<rparr>)))
     else
       bnd readNextWord (\<lambda>lf.
       ret \<lparr>h = None, w = None, rawCelData = None,
            layerIndex = li, xpos = x, ypos = y, celOpacity = opac, celType = ctype,
            linkedFrame = Some lf\<rparr>)))))))"

definition loops :: "animDirection list" where
  "loops = [Forward, Reverse, PingPong]"

definition readFrameTag :: "unit rd" where
  "readFrameTag =
     bnd readNextWord (\<lambda>from.
     bnd readNextWord (\<lambda>to.
     bnd readNextByte (\<lambda>loopsInd.
     bnd (skipBytes 8) (\<lambda>_.
     bnd (readNextRawBytes 3) (\<lambda>col.
     bnd (skipBytes 1) (\<lambda>_.
     bnd readNextString (\<lambda>nm.
     modify (\<lambda>s. s\<lparr>tags := tags s @
       [\<lparr>tagFrom = from, tagTo = to,
         tagAnimDirection = (if loopsInd < length loops then Some (loops ! loopsInd) else None),
         tagColor = col, tagName = nm\<rparr>]\<rparr>))))))))"

fun readFrameTags :: "nat \<Rightarrow> unit rd" where
  "readFrameTags 0 = ret ()"
| "readFrameTags (Suc n) = bnd readFrameTag (\<lambda>_. readFrameTags n)"

definition readFrameTagsChunk :: "unit rd" where
  "readFrameTagsChunk =
     bnd readNextWord (\<lambda>numTags. bnd (skipBytes 8) (\<lambda>_. readFrameTags numTags))"

text \<open>
  The chunk types that the switch of readFrame skips by their declared size, and the body
  of its loop: read one chunk header, dispatch on the type. The switch has no default
  case, so a type outside its cases falls through with nothing read.
\<close>

definition skippedTypes :: "nat list" where
  "skippedTypes = [0x0004, 0x2006, 0x0011, 0x2016, 0x2017, 0x2020, 0x2022]"

definition readFrameChunk :: "pako \<Rightarrow> cel list \<Rightarrow> (cel list) rd" where
  "readFrameChunk pako cs =
     bnd readChunk (\<lambda>(chunkSize, type).
       if type \<in> set skippedTypes then
         bnd (skipBytes (int chunkSize - 6)) (\<lambda>_. ret cs)
       else if type = 0x2004 then bnd readLayerChunk (\<lambda>_. ret cs)
       else if type = 0x2005 then bnd (readCelChunk pako chunkSize) (\<lambda>c. ret (cs @ [c]))
       else if type = 0x2007 then bnd readColorProfileChunk (\<lambda>_. ret cs)
       else if type = 0x2018 then bnd readFrameTagsChunk (\<lambda>_. ret cs)
       else if type = 0x2019 then
         bnd readPaletteChunk (\<lambda>p. bnd (modify (\<lambda>s. s\<lparr>palette := Some p\<rparr>)) (\<lambda>_. ret cs))
       else ret cs)"

fun readFrameChunks :: "pako \<Rightarrow> nat \<Rightarrow> cel list \<Rightarrow> (cel list) rd" where
  "readFrameChunks pako 0 cs = ret cs"
| "readFrameChunks pako (Suc n) cs =
     bnd (readFrameChunk pako cs) (\<lambda>cs'. readFrameChunks pako n cs')"

definition readFrame :: "pako \<Rightarrow> unit rd" where
  "readFrame pako =
     bnd readNextDWord (\<lambda>bytes.
     bnd (skipBytes 2) (\<lambda>_.
     bnd readNextWord (\<lambda>oldChunk.
     bnd readNextWord (\<lambda>duration.
     bnd (skipBytes 2) (\<lambda>_.
     bnd readNextDWord (\<lambda>newChunk.
     bnd (readFrameChunks pako newChunk []) (\<lambda>cs.
     modify (\<lambda>s. s\<lparr>frames := frames s @
       [\<lparr>bytesInFrame = bytes, frameDuration = duration, numChunks = newChunk,
         cels = cs\<rparr>]\<rparr>))))))))"

fun readFrames :: "pako \<Rightarrow> nat \<Rightarrow> unit rd" where
  "readFrames pako 0 = ret ()"
| "readFrames pako (Suc n) = bnd (readFrame pako) (\<lambda>_. readFrames pako n)"

definition parse :: "pako \<Rightarrow> unit rd" where
  "parse pako = bnd readHeader (\<lambda>nf. readFrames pako nf)"

section \<open>The renderer\<close>

text \<open>
  The canvas is modelled by what has been drawn on it since it was last cleared: one
  entry per drawImage call, holding the pixel bytes of the temporary canvas (the
  ImageData of the cel), its size, the position passed to drawImage and the transform of
  the context at that moment. fitToContainer computes the transform from the canvas size,
  the image size and the flip flag in floating point; the model keeps these parameters
  instead of the matrix. Pan and zoom (trans, scale) are left out: every render pass
  resets the transform through fitToContainer.
\<close>

datatype transform = Initial | Fitted nat nat nat nat bool

record drawOp =
  image :: "byte list"
  imageW :: nat
  imageH :: nat
  dx :: int
  dy :: int
  under :: transform

record aseCanvasRenderer =
  aseData :: "aseReader option"
  currentFrame :: nat
  lastRenderTime :: int
  isFlipped :: bool
  layerVisibility :: "nat \<rightharpoonup> bool"
  canvasWidth :: nat
  canvasHeight :: nat
  ctxTransform :: transform
  canvas :: "drawOp list"

subsection \<open>Layer visibility\<close>

definition isLayerVisible :: "aseCanvasRenderer \<Rightarrow> nat \<Rightarrow> bool" where
  "isLayerVisible r li =
     (case aseData r of
        None \<Rightarrow> True
      | Some d \<Rightarrow>
          if \<not> li < length (layers d) then True
          else
            (case layerVisibility r li of
               Some v \<Rightarrow> v
             | None \<Rightarrow>
                 (case flags (layers d ! li) of
                    FlagsObject b \<Rightarrow> b
                  | FlagsNumber n \<Rightarrow> n AND 1 = 1
                  | FlagsOther \<Rightarrow> True)))"

subsection \<open>Linked cels\<close>

text \<open>
  frames[lFrame].cels[numCel]. Reading a property of undefined throws TypeError, which
  happens at .cels when the frame does not exist and at the first property read of the
  cel when the cel does not exist.
\<close>

definition celAt :: "aseReader \<Rightarrow> nat \<Rightarrow> nat \<Rightarrow> error + cel" where
  "celAt d lFrame numCel =
     (if lFrame < length (frames d) then
        (if numCel < length (cels (frames d ! lFrame))
         then Inr (cels (frames d ! lFrame) ! numCel)
         else Inl TypeError)
      else Inl TypeError)"

text \<open>
  The while loop of getCelData, entered with nextCel. The result None means that the loop
  does not return.
\<close>

partial_function (option) getCelDataLoop :: "aseReader \<Rightarrow> nat \<Rightarrow> cel \<Rightarrow> (error + cel) option"
  where
  "getCelDataLoop d numCel nextCel =
     (if celType nextCel = 1 then
        (case linkedFrame nextCel of
           None \<Rightarrow> Some (Inl TypeError)
         | Some nextLFrame \<Rightarrow>
             (case celAt d nextLFrame numCel of
                Inl e \<Rightarrow> Some (Inl e)
              | Inr c \<Rightarrow> getCelDataLoop d numCel c))
      else Some (Inr nextCel))"

definition imageOf :: "cel \<Rightarrow> celImage" where
  "imageOf c = \<lparr>h = h c, w = w c, rawCelData = rawCelData c\<rparr>"

definition getCelData :: "aseReader \<Rightarrow> nat \<Rightarrow> nat \<Rightarrow> (error + celImage) option" where
  "getCelData d lFrame numCel =
     (case celAt d lFrame numCel of
        Inl e \<Rightarrow> Some (Inl e)
      | Inr currCel \<Rightarrow>
          if linkedFrame currCel \<noteq> None then
            (case getCelDataLoop d numCel currCel of
               None \<Rightarrow> None
             | Some (Inl e) \<Rightarrow> Some (Inl e)
             | Some (Inr nextCel) \<Rightarrow> Some (Inr (imageOf nextCel)))
          else Some (Inr (imageOf currCel)))"

text \<open>
  The object spread of writeCel: the properties of the resolved image, overridden by the
  own properties of the cel.
\<close>

definition orElse :: "'a option \<Rightarrow> 'a option \<Rightarrow> 'a option" where
  "orElse a b = (case a of Some x \<Rightarrow> Some x | None \<Rightarrow> b)"

definition spread :: "celImage \<Rightarrow> cel \<Rightarrow> cel" where
  "spread res celData =
     celData\<lparr>h := orElse (h celData) (h res), w := orElse (w celData) (w res),
             rawCelData := orElse (rawCelData celData) (rawCelData res)\<rparr>"

text \<open>The first statement of writeCel: the cel itself, or the linked cel resolved.\<close>

definition resolveCel :: "aseReader \<Rightarrow> cel \<Rightarrow> nat \<Rightarrow> (error + cel) option" where
  "resolveCel d celData numCel =
     (if celType celData \<noteq> 1 then Some (Inr celData)
      else
        (case linkedFrame celData of
           None \<Rightarrow> Some (Inl TypeError)
         | Some lf \<Rightarrow>
             (case getCelData d lf numCel of
                None \<Rightarrow> None
              | Some (Inl e) \<Rightarrow> Some (Inl e)
              | Some (Inr res) \<Rightarrow> Some (Inr (spread res celData)))))"

subsection \<open>Pixel decoding\<close>

text \<open>
  The three branches of writeCel (preload.js, lines 431 to 486). createImageData gives
  w*h*4 zero bytes (the allocation is taken to succeed); the loops store into it by index.
  A store into the Uint8ClampedArray clamps the number to 0..255.
\<close>

definition clampByte :: "nat \<Rightarrow> byte" where
  "clampByte n = word_of_nat (min n 255)"

definition createImageData :: "nat \<Rightarrow> nat \<Rightarrow> byte list" where
  "createImageData cw ch = replicate (cw * ch * 4) 0"

definition copyBytes :: "byte list \<Rightarrow> nat \<Rightarrow> byte list \<Rightarrow> byte list" where
  "copyBytes raw n dat = fold (\<lambda>i acc. acc[i := raw ! i]) [0..<n] dat"

definition grayPixel :: "byte list \<Rightarrow> nat \<Rightarrow> byte list \<Rightarrow> byte list" where
  "grayPixel raw i dat =
     (let dataIndex = i * 2 in
      if dataIndex + 1 < length raw then
        (let v = raw ! dataIndex; a = raw ! (dataIndex + 1); pixelIndex = i * 4 in
         dat[pixelIndex := v, pixelIndex + 1 := v, pixelIndex + 2 := v, pixelIndex + 3 := a])
      else dat)"

definition paletteColor :: "palette option \<Rightarrow> nat \<Rightarrow> color option" where
  "paletteColor pal paletteIndex =
     (case pal of
        None \<Rightarrow> None
      | Some p \<Rightarrow> if paletteIndex < length (colors p) then Some (colors p ! paletteIndex)
                  else None)"

definition indexedPixel :: "palette option \<Rightarrow> byte list \<Rightarrow> nat \<Rightarrow> byte list \<Rightarrow> byte list" where
  "indexedPixel pal raw i dat =
     (if i < length raw then
        (let paletteIndex = unat (raw ! i); pixelIndex = i * 4 in
         case paletteColor pal paletteIndex of
           Some c \<Rightarrow>
             dat[pixelIndex := clampByte (red c), pixelIndex + 1 := clampByte (green c),
                 pixelIndex + 2 := clampByte (blue c), pixelIndex + 3 := clampByte (alpha c)]
         | None \<Rightarrow>
             dat[pixelIndex := 0, pixelIndex + 1 := 0, pixelIndex + 2 := 0,
                 pixelIndex + 3 := 0])
      else dat)"

definition decodePixels :: "nat \<Rightarrow> palette option \<Rightarrow> nat \<Rightarrow> nat \<Rightarrow> byte list \<Rightarrow> byte list" where
  "decodePixels depth pal cw ch raw =
     (let imageData = createImageData cw ch in
      if depth = 32 then
        (let expectedLength = cw * ch * 4; actualLength = length raw in
         if actualLength \<ge> expectedLength then copyBytes raw expectedLength imageData
         else copyBytes raw (min expectedLength actualLength) imageData)
      else if depth = 16 then fold (grayPixel raw) [0..<cw * ch] imageData
      else if depth = 8 then fold (indexedPixel pal raw) [0..<cw * ch] imageData
      else imageData)"

subsection \<open>Painting\<close>

text \<open>
  writeCel after the cel is resolved: the two integrity checks return without drawing;
  otherwise the decoded image is drawn at the cel's position.
\<close>

definition paintCel :: "aseCanvasRenderer \<Rightarrow> aseReader \<Rightarrow> cel \<Rightarrow> aseCanvasRenderer" where
  "paintCel r d c =
     (let depth = (if colorDepth d = 0 then 32 else colorDepth d) in
      case rawCelData c of
        None \<Rightarrow> r
      | Some raw \<Rightarrow>
          if length raw = 0 then r
          else
            (case (w c, h c) of
               (Some cw, Some ch) \<Rightarrow>
                 if cw = 0 \<or> ch = 0 then r
                 else r\<lparr>canvas := canvas r @
                        [\<lparr>image = decodePixels depth (palette d) cw ch raw, imageW = cw,
                          imageH = ch, dx = xpos c, dy = ypos c, under = ctxTransform r\<rparr>]\<rparr>
             | _ \<Rightarrow> r))"

definition writeCel :: "aseCanvasRenderer \<Rightarrow> nat \<Rightarrow> (error + aseCanvasRenderer) option" where
  "writeCel r numCel =
     (case aseData r of
        None \<Rightarrow> Some (Inl TypeError)
      | Some d \<Rightarrow>
          (case celAt d (currentFrame r) numCel of
             Inl e \<Rightarrow> Some (Inl e)
           | Inr celData \<Rightarrow>
               (case resolveCel d celData numCel of
                  None \<Rightarrow> None
                | Some (Inl e) \<Rightarrow> Some (Inl e)
                | Some (Inr c) \<Rightarrow> Some (Inr (paintCel r d c)))))"

definition clearCanvas :: "aseCanvasRenderer \<Rightarrow> aseCanvasRenderer" where
  "clearCanvas r = r\<lparr>canvas := []\<rparr>"

definition fitToContainer :: "aseCanvasRenderer \<Rightarrow> aseCanvasRenderer" where
  "fitToContainer r =
     (case aseData r of
        None \<Rightarrow> r
      | Some d \<Rightarrow>
          r\<lparr>ctxTransform :=
              Fitted (canvasWidth r) (canvasHeight r) (width d) (height d) (isFlipped r)\<rparr>)"

text \<open>
  The loop shared by renderFrame, forceRender and resetView, over the cel positions of the
  frame: a visible cel is written, any other is passed over. An exception in writeCel
  leaves the loop; a writeCel that does not return keeps the loop from returning.
\<close>

fun renderCels :: "frame \<Rightarrow> nat list \<Rightarrow> aseCanvasRenderer \<Rightarrow> (error + aseCanvasRenderer) option"
  where
  "renderCels fr [] r = Some (Inr r)"
| "renderCels fr (i # rest) r =
     (if isLayerVisible r (layerIndex (cels fr ! i)) then
        (case writeCel r i of
           None \<Rightarrow> None
         | Some (Inl e) \<Rightarrow> Some (Inl e)
         | Some (Inr r') \<Rightarrow> renderCels fr rest r')
      else renderCels fr rest r)"

definition forceRender :: "aseCanvasRenderer \<Rightarrow> nat \<Rightarrow> (error + aseCanvasRenderer) option" where
  "forceRender r frameIndex =
     (case aseData r of
        None \<Rightarrow> Some (Inr r)
      | Some d \<Rightarrow>
          if \<not> frameIndex < length (frames d) then Some (Inr r)
          else
            (let r1 = clearCanvas (r\<lparr>currentFrame := frameIndex\<rparr>);
                 fr = frames d ! frameIndex;
                 celLen = length (cels fr);
                 r2 = fitToContainer r1
             in renderCels fr [0..<celLen] r2))"

text \<open>renderFrame, with the value of Date.now() as the argument now.\<close>

definition renderFrame :: "int \<Rightarrow> aseCanvasRenderer \<Rightarrow> nat \<Rightarrow> (error + aseCanvasRenderer) option"
  where
  "renderFrame now r frameIndex =
     (case aseData r of
        None \<Rightarrow> Some (Inr r)
      | Some d \<Rightarrow>
          if \<not> frameIndex < length (frames d) then Some (Inr r)
          else if now - lastRenderTime r < 100 then Some (Inr r)
          else
            (let r0 = r\<lparr>lastRenderTime := now\<rparr>;
                 r1 = clearCanvas (r0\<lparr>currentFrame := frameIndex\<rparr>);
                 fr = frames d ! frameIndex;
                 celLen = length (cels fr);
                 r2 = fitToContainer r1
             in renderCels fr [0..<celLen] r2))"

definition setLayerVisibility ::
  "int \<Rightarrow> aseCanvasRenderer \<Rightarrow> nat \<Rightarrow> bool \<Rightarrow> (error + aseCanvasRenderer) option" where
  "setLayerVisibility now r li visible =
     (let r' = r\<lparr>layerVisibility := (layerVisibility r)(li \<mapsto> visible)\<rparr> in
      if aseData r' \<noteq> None then renderFrame now r' (currentFrame r') else Some (Inr r'))"

section \<open>Notions used in the statements and proofs\<close>

text \<open>The four bytes of pixel i of an RGBA buffer.\<close>

definition pixelAt :: "byte list \<Rightarrow> nat \<Rightarrow> byte list" where
  "pixelAt dat i = [dat ! (i * 4), dat ! (i * 4 + 1), dat ! (i * 4 + 2), dat ! (i * 4 + 3)]"

text \<open>What a render call leaves on the canvas, when it returns normally.\<close>

definition drawn :: "(error + aseCanvasRenderer) option \<Rightarrow> (error + drawOp list) option" where
  "drawn res = map_option (map_sum id canvas) res"

text \<open>
  Two renderers agree on everything the cel loop reads or draws on: the document, the
  current frame, the overrides, the transform and the canvas.
\<close>

definition sameView :: "aseCanvasRenderer \<Rightarrow> aseCanvasRenderer \<Rightarrow> bool" where
  "sameView r1 r2 \<longleftrightarrow>
     aseData r1 = aseData r2 \<and> currentFrame r1 = currentFrame r2
     \<and> layerVisibility r1 = layerVisibility r2 \<and> ctxTransform r1 = ctxTransform r2
     \<and> canvas r1 = canvas r2"


text \<open>
  Properties of a read: it keeps a field of the reader, it relates the reader before to
  the reader after, its value and final reader satisfy a predicate, and it succeeds
  within n bytes whenever n bytes are left in the buffer.
\<close>

definition keeps :: "(aseReader \<Rightarrow> 'x) \<Rightarrow> 'a rd \<Rightarrow> bool" where
  "keeps g m \<longleftrightarrow> (\<forall>s v s'. m s = Inr (v, s') \<longrightarrow> g s' = g s)"

definition steps :: "(aseReader \<Rightarrow> aseReader \<Rightarrow> bool) \<Rightarrow> 'a rd \<Rightarrow> bool" where
  "steps R m \<longleftrightarrow> (\<forall>s v s'. m s = Inr (v, s') \<longrightarrow> R s s')"

definition yields :: "('a \<Rightarrow> aseReader \<Rightarrow> bool) \<Rightarrow> 'a rd \<Rightarrow> bool" where
  "yields Q m \<longleftrightarrow> (\<forall>s v s'. m s = Inr (v, s') \<longrightarrow> Q v s')"

definition succeeds :: "int \<Rightarrow> 'a rd \<Rightarrow> bool" where
  "succeeds n m \<longleftrightarrow>
     (\<forall>s. 0 \<le> offset s \<and> offset s + n \<le> int (length (dv s)) \<longrightarrow>
          (\<exists>v s'. m s = Inr (v, s') \<and> dv s' = dv s \<and> offset s \<le> offset s'
                   \<and> offset s' \<le> offset s + n))"

section \<open>Example documents\<close>

text \<open>
  Small documents and renderers on which the theorems below are exercised. newRenderer is
  the state the constructor and initCanvas leave (a 240 by 240 canvas, no overrides),
  with a document loaded.
\<close>

definition exampleDoc :: "layer list \<Rightarrow> frame list \<Rightarrow> nat \<Rightarrow> palette option \<Rightarrow> aseReader" where
  "exampleDoc ls fs depth pal =
     (newAseReader [])\<lparr>frames := fs, layers := ls, numFrames := length fs, width := 2,
        height := 2, colorDepth := depth, palette := pal\<rparr>"

definition newRenderer :: "aseReader \<Rightarrow> aseCanvasRenderer" where
  "newRenderer d =
     \<lparr>aseData = Some d, currentFrame = 0, lastRenderTime = 0, isFlipped = False,
      layerVisibility = Map.empty, canvasWidth = 240, canvasHeight = 240,
      ctxTransform = Initial, canvas = []\<rparr>"

definition exampleLayer :: "nat \<Rightarrow> layer" where
  "exampleLayer fl =
     \<lparr>flags = FlagsNumber fl, layerType = 0, layerChildLevel = 0, blendMode = 0,
      opacity = 255, name = []\<rparr>"

definition directCel :: "nat \<Rightarrow> int \<Rightarrow> int \<Rightarrow> nat \<Rightarrow> nat \<Rightarrow> byte list \<Rightarrow> cel" where
  "directCel li x y cw ch raw =
     \<lparr>h = Some ch, w = Some cw, rawCelData = Some raw, layerIndex = li, xpos = x, ypos = y,
      celOpacity = 255, celType = 0, linkedFrame = None\<rparr>"

definition linkedCel :: "nat \<Rightarrow> int \<Rightarrow> int \<Rightarrow> nat \<Rightarrow> cel" where
  "linkedCel li x y lf =
     \<lparr>h = None, w = None, rawCelData = None, layerIndex = li, xpos = x, ypos = y,
      celOpacity = 255, celType = 1, linkedFrame = Some lf\<rparr>"

definition frameOf :: "cel list \<Rightarrow> frame" where
  "frameOf cs = \<lparr>bytesInFrame = 0, frameDuration = 100, numChunks = length cs, cels = cs\<rparr>"

text \<open>
  Frame 0 holds a one-pixel cel whose payload is empty; the cel of frame 1 links to it.
\<close>

definition emptyCelDoc :: aseReader where
  "emptyCelDoc =
     exampleDoc [exampleLayer 1]
       [frameOf [directCel 0 0 0 1 1 []], frameOf [linkedCel 0 3 4 0]] 32 None"

text \<open>Two visible layers, one frame with a one-pixel cel on each.\<close>

definition twoLayerDoc :: aseReader where
  "twoLayerDoc =
     exampleDoc [exampleLayer 1, exampleLayer 1]
       [frameOf [directCel 0 0 0 1 1 [1, 2, 3, 4], directCel 1 1 0 1 1 [5, 6, 7, 8]]] 32 None"

text \<open>No layer at all, one frame with a one-pixel cel that names layer 0.\<close>

definition noLayerDoc :: aseReader where
  "noLayerDoc = exampleDoc [] [frameOf [directCel 0 0 0 1 1 [9, 9, 9, 9]]] 32 None"

text \<open>The cel of frame 0 links to frame 1, whose cel links back to frame 0.\<close>

definition cyclicDoc :: aseReader where
  "cyclicDoc =
     exampleDoc [exampleLayer 1]
       [frameOf [linkedCel 0 0 0 1], frameOf [linkedCel 0 0 0 0]] 32 None"

text \<open>The only cel links to frame 5, which does not exist.\<close>

definition danglingDoc :: aseReader where
  "danglingDoc = exampleDoc [exampleLayer 1] [frameOf [linkedCel 0 0 0 5]] 32 None"


text \<open>A palette of six colours; colour 5 is (10, 20, 30, 255).\<close>

definition examplePalette :: palette where
  "examplePalette =
     \<lparr>paletteSize = 6, firstColor = 0, lastColor = 5,
      colors = replicate 5 \<lparr>red = 0, green = 0, blue = 0, alpha = 255, colorName = noneName\<rparr>
        @ [\<lparr>red = 10, green = 20, blue = 30, alpha = 255, colorName = noneName\<rparr>]\<rparr>"

text \<open>
  A file of 250 bytes. The header declares two frames of a 2 by 2 image at depth 32.
  Frame 0 holds a layer chunk, a user data chunk (type 0x2020) and a raw cel chunk whose
  payload has 4 bytes where 2 * 2 * 4 are expected; frame 1 holds a linked cel chunk.
\<close>

definition exampleHeader :: "byte list" where
  "exampleHeader =
     [250, 0, 0, 0, 0xE0, 0xA5, 2, 0, 2, 0, 2, 0, 32, 0] @ replicate 18 0
       @ [0, 0, 1, 1] @ replicate 92 0"

definition exampleFrame0 :: "byte list" where
  "exampleFrame0 =
     [82, 0, 0, 0, 0xFA, 0xF1, 3, 0, 100, 0, 0, 0, 3, 0, 0, 0]
     @ [26, 0, 0, 0, 0x04, 0x20, 1, 0, 0, 0, 0, 0, 0, 0, 0, 0, 0, 0, 255, 0, 0, 0, 2, 0, 76, 48]
     @ [10, 0, 0, 0, 0x20, 0x20, 0, 0, 0, 0]
     @ [30, 0, 0, 0, 0x05, 0x20, 0, 0, 1, 0, 0xFF, 0xFF, 255, 0, 0, 0, 0, 0, 0, 0, 0, 0,
        2, 0, 2, 0, 1, 2, 3, 4]"

definition exampleFrame1 :: "byte list" where
  "exampleFrame1 =
     [40, 0, 0, 0, 0xFA, 0xF1, 1, 0, 100, 0, 0, 0, 1, 0, 0, 0]
     @ [24, 0, 0, 0, 0x05, 0x20, 0, 0, 0, 0, 0, 0, 255, 1, 0, 0, 0, 0, 0, 0, 0, 0, 0, 0]"

definition exampleFile :: "byte list" where
  "exampleFile = exampleHeader @ exampleFrame0 @ exampleFrame1"

text \<open>
  A chunk of 10 bytes with the type code 0x2023, which no case of the switch names,
  followed by a user data chunk of 6 bytes.
\<close>

definition unlistedChunk :: "byte list" where
  "unlistedChunk = [10, 0, 0, 0, 0x23, 0x20, 1, 2, 3, 4, 6, 0, 0, 0, 0x20, 0x20]"


text \<open>The document that parsing exampleFile builds.\<close>

definition exampleDocument :: aseReader where
  "exampleDocument =
     (newAseReader exampleFile)
       \<lparr>offset := 250, fileSize := 250, numFrames := 2, width := 2, height := 2,
        colorDepth := 32, numColors := 0, pixelRatio := (1, 1),
        layers := [\<lparr>flags = FlagsNumber 1, layerType = 0, layerChildLevel = 0,
                    blendMode = 0, opacity = 255, name = [76, 48]\<rparr>],
        frames :=
          [\<lparr>bytesInFrame = 82, frameDuration = 100, numChunks = 3,
            cels = [\<lparr>h = Some 2, w = Some 2, rawCelData = Some [1, 2, 3, 4],
                     layerIndex = 0, xpos = 1, ypos = - 1, celOpacity = 255,
                     celType = 0, linkedFrame = None\<rparr>]\<rparr>,
           \<lparr>bytesInFrame = 40, frameDuration = 100, numChunks = 1,
            cels = [\<lparr>h = None, w = None, rawCelData = None, layerIndex = 0,
                     xpos = 0, ypos = 0, celOpacity = 255, celType = 1,
                     linkedFrame = Some 0\<rparr>]\<rparr>]\<rparr>"

text \<open>
  Two frames, each with a one-pixel cel on layer 0 followed by a linked cel on layer 1;
  the linked cels name each other's frames.
\<close>

definition cyclicBehindDoc :: aseReader where
  "cyclicBehindDoc =
     exampleDoc [exampleLayer 1, exampleLayer 1]
       [frameOf [directCel 0 0 0 1 1 [1, 2, 3, 4], linkedCel 1 0 0 1],
        frameOf [directCel 0 0 0 1 1 [5, 6, 7, 8], linkedCel 1 0 0 0]] 32 None"

text \<open>
  The renderer with twoLayerDoc loaded, as renderFrame leaves it when called for frame 0
  at time 1000: both cels are on the canvas.
\<close>

definition renderedTwoLayer :: aseCanvasRenderer where
  "renderedTwoLayer =
     (newRenderer twoLayerDoc)
       \<lparr>lastRenderTime := 1000, ctxTransform := Fitted 240 240 2 2 False,
        canvas := [\<lparr>image = [1, 2, 3, 4], imageW = 1, imageH = 1, dx = 0, dy = 0,
                     under = Fitted 240 240 2 2 False\<rparr>,
                   \<lparr>image = [5, 6, 7, 8], imageW = 1, imageH = 1, dx = 1, dy = 0,
                     under = Fitted 240 240 2 2 False\<rparr>]\<rparr>"

section \<open>Properties of the renderer\<close>

lemma writeCel_keeps:
  assumes "writeCel r i = Some (Inr r')"
  shows "aseData r' = aseData r \<and> layerVisibility r' = layerVisibility r
         \<and> currentFrame r' = currentFrame r"
  using assms
  by (auto simp: writeCel_def paintCel_def Let_def
           split: option.splits sum.splits if_splits prod.splits)

text \<open>
  C10. A cel that resolves with missing or empty pixel data, or with a missing or zero
  width or height, is skipped by writeCel: the call returns normally and the renderer,
  with its canvas, is as it was.
\<close>

theorem writeCel_skips_empty_cel:
  assumes "aseData r = Some d"
    and "celAt d (currentFrame r) numCel = Inr celData"
    and "resolveCel d celData numCel = Some (Inr c)"
    and "rawCelData c = None \<or> rawCelData c = Some [] \<or> w c = None \<or> w c = Some 0
         \<or> h c = None \<or> h c = Some 0"
  shows "writeCel r numCel = Some (Inr r)"
  using assms
  by (auto simp: writeCel_def paintCel_def Let_def split: option.splits)

theorem writeCel_skips_empty_cel_witness:
  "resolveCel emptyCelDoc (linkedCel 0 3 4 0) 0
     = Some (Inr ((linkedCel 0 3 4 0)\<lparr>h := Some 1, w := Some 1, rawCelData := Some []\<rparr>))
   \<and> writeCel ((newRenderer emptyCelDoc)\<lparr>currentFrame := 1\<rparr>) 0
     = Some (Inr ((newRenderer emptyCelDoc)\<lparr>currentFrame := 1\<rparr>))"
proof -
  have res: "resolveCel emptyCelDoc (linkedCel 0 3 4 0) 0
     = Some (Inr ((linkedCel 0 3 4 0)\<lparr>h := Some 1, w := Some 1, rawCelData := Some []\<rparr>))"
    by (simp add: resolveCel_def getCelData_def celAt_def emptyCelDoc_def exampleDoc_def
        newAseReader_def frameOf_def linkedCel_def directCel_def spread_def orElse_def
        imageOf_def)
  have at: "celAt emptyCelDoc (currentFrame ((newRenderer emptyCelDoc)\<lparr>currentFrame := 1\<rparr>)) 0
     = Inr (linkedCel 0 3 4 0)"
    by (simp add: celAt_def emptyCelDoc_def exampleDoc_def newAseReader_def frameOf_def)
  have "writeCel ((newRenderer emptyCelDoc)\<lparr>currentFrame := 1\<rparr>) 0
     = Some (Inr ((newRenderer emptyCelDoc)\<lparr>currentFrame := 1\<rparr>))"
    by (rule writeCel_skips_empty_cel [OF _ at res]) (simp_all add: newRenderer_def)
  with res show ?thesis by simp
qed

lemmas example_defs = exampleDoc_def newAseReader_def newRenderer_def exampleLayer_def
  directCel_def linkedCel_def frameOf_def

lemmas render_defs = forceRender_def renderFrame_def clearCanvas_def fitToContainer_def
  isLayerVisible_def writeCel_def celAt_def resolveCel_def paintCel_def Let_def drawn_def

subsection \<open>Pixel decoding\<close>

lemma copyBytes_eq:
  "n \<le> length raw \<Longrightarrow> n \<le> length dat \<Longrightarrow> copyBytes raw n dat = take n raw @ drop n dat"
proof (induction n)
  case 0
  then show ?case by (simp add: copyBytes_def)
next
  case (Suc n)
  then have "copyBytes raw (Suc n) dat = (take n raw @ drop n dat)[n := raw ! n]"
    by (simp add: copyBytes_def)
  also have "\<dots> = take n raw @ (drop n dat)[0 := raw ! n]"
    using Suc.prems by (simp add: list_update_append)
  also have "\<dots> = take n raw @ raw ! n # drop (Suc n) dat"
    using Suc.prems
    by (cases "drop n dat") (auto simp: drop_Suc drop_tl dest: arg_cong [where f = tl])
  also have "\<dots> = take (Suc n) raw @ drop (Suc n) dat"
    using Suc.prems by (simp add: take_Suc_conv_app_nth)
  finally show ?case .
qed

lemma decodePixels_32:
  "decodePixels 32 pal cw ch raw
     = take (cw * ch * 4) raw @ replicate (cw * ch * 4 - length raw) 0"
  by (simp add: decodePixels_def Let_def createImageData_def copyBytes_eq min_def)

lemma indexedPixel_length [simp]: "length (indexedPixel pal raw i dat) = length dat"
  by (simp add: indexedPixel_def Let_def split: option.splits)

lemma fold_indexedPixel_length [simp]:
  "length (fold (indexedPixel pal raw) [0..<n] dat) = length dat"
  by (induction n) simp_all

lemma indexedPixel_other:
  "p < i * 4 \<or> i * 4 + 4 \<le> p \<Longrightarrow> indexedPixel pal raw i dat ! p = dat ! p"
  by (auto simp: indexedPixel_def Let_def split: option.splits)

lemma indexedPixel_at:
  assumes "i < length raw" and "i * 4 + 3 < length dat"
  shows "pixelAt (indexedPixel pal raw i dat) i =
           (case paletteColor pal (unat (raw ! i)) of
              Some c \<Rightarrow> [clampByte (red c), clampByte (green c), clampByte (blue c),
                          clampByte (alpha c)]
            | None \<Rightarrow> [0, 0, 0, 0])"
  using assms by (simp add: indexedPixel_def pixelAt_def Let_def split: option.splits)

lemma pixelAt_other:
  "j < n \<Longrightarrow> pixelAt (indexedPixel pal raw n dat) j = pixelAt dat j"
  by (simp add: pixelAt_def indexedPixel_other)

lemma fold_indexedPixel_at:
  assumes "j < n" and "j < length raw" and "j * 4 + 3 < length dat"
  shows "pixelAt (fold (indexedPixel pal raw) [0..<n] dat) j
           = pixelAt (indexedPixel pal raw j dat) j"
  using assms
proof (induction n)
  case 0
  then show ?case by simp
next
  case (Suc n)
  show ?case
  proof (cases "j = n")
    case True
    have "pixelAt (indexedPixel pal raw n (fold (indexedPixel pal raw) [0..<n] dat)) n
            = pixelAt (indexedPixel pal raw n dat) n"
      using Suc.prems True by (simp add: indexedPixel_at)
    then show ?thesis using True by simp
  next
    case False
    then have "j < n" using Suc.prems by simp
    then show ?thesis using Suc by (simp add: pixelAt_other)
  qed
qed

lemma unat_clampByte: "n \<le> 255 \<Longrightarrow> unat (clampByte n) = n"
  by (simp add: clampByte_def unat_of_nat min_def)

lemma decodePixels_8_pixel:
  assumes "i < cw * ch" and "i < length raw"
  shows "pixelAt (decodePixels 8 pal cw ch raw) i =
           (case paletteColor pal (unat (raw ! i)) of
              Some c \<Rightarrow> [clampByte (red c), clampByte (green c), clampByte (blue c),
                          clampByte (alpha c)]
            | None \<Rightarrow> [0, 0, 0, 0])"
proof -
  have "i * 4 + 3 < length (createImageData cw ch)"
    using assms by (simp add: createImageData_def)
  then show ?thesis
    using assms by (simp add: decodePixels_def Let_def fold_indexedPixel_at indexedPixel_at)
qed

text \<open>
  C6. At colour depth 8 the raw byte of pixel i is a palette index. When the palette has a
  colour at that index, the pixel is that colour's (red, green, blue, alpha); when there
  is no palette or the index is past its last colour, the pixel is (0, 0, 0, 0). The
  decoder is a total function: no branch of it raises.
\<close>

theorem indexed_pixel_is_palette_colour:
  assumes "i < cw * ch" and "i < length raw"
  shows "(\<forall>p c. pal = Some p \<and> unat (raw ! i) < length (colors p)
              \<and> c = colors p ! unat (raw ! i)
              \<and> red c \<le> 255 \<and> green c \<le> 255 \<and> blue c \<le> 255 \<and> alpha c \<le> 255
            \<longrightarrow> map unat (pixelAt (decodePixels 8 pal cw ch raw) i)
                  = [red c, green c, blue c, alpha c])
       \<and> (pal = None \<or> (\<exists>p. pal = Some p \<and> length (colors p) \<le> unat (raw ! i))
            \<longrightarrow> pixelAt (decodePixels 8 pal cw ch raw) i = [0, 0, 0, 0])"
  unfolding decodePixels_8_pixel [OF assms]
  by (auto simp: paletteColor_def unat_clampByte)

theorem indexed_pixel_is_palette_colour_witness:
  "map unat (pixelAt (decodePixels 8 (Some examplePalette) 2 1 [5, 9]) 0) = [10, 20, 30, 255]
   \<and> pixelAt (decodePixels 8 (Some examplePalette) 2 1 [5, 9]) 1 = [0, 0, 0, 0]
   \<and> pixelAt (decodePixels 8 None 2 1 [5, 9]) 0 = [0, 0, 0, 0]"
proof -
  have len: "length (colors examplePalette) = 6"
    by (simp add: examplePalette_def)
  have c5: "colors examplePalette ! 5
              = \<lparr>red = 10, green = 20, blue = 30, alpha = 255, colorName = noneName\<rparr>"
    by (simp add: examplePalette_def nth_append)
  have "map unat (pixelAt (decodePixels 8 (Some examplePalette) 2 1 [5, 9]) 0)
          = [10, 20, 30, 255]"
    using indexed_pixel_is_palette_colour [of 0 2 1 "[5, 9]" "Some examplePalette",
        THEN conjunct1, rule_format, of examplePalette "colors examplePalette ! 5"]
    by (simp add: len c5)
  moreover have "pixelAt (decodePixels 8 (Some examplePalette) 2 1 [5, 9]) 1 = [0, 0, 0, 0]"
    using indexed_pixel_is_palette_colour [of 1 2 1 "[5, 9]" "Some examplePalette",
        THEN conjunct2]
    by (simp add: len)
  moreover have "pixelAt (decodePixels 8 None 2 1 [5, 9]) 0 = [0, 0, 0, 0]"
    using indexed_pixel_is_palette_colour [of 0 2 1 "[5, 9]" None, THEN conjunct2]
    by simp
  ultimately show ?thesis by simp
qed

subsection \<open>Layer visibility\<close>

lemma renderCels_hidden:
  assumes "aseData r = Some d" and "1 < length (layers d)"
    and "layerVisibility r 1 = Some False"
  shows "renderCels fr cs r
           = renderCels fr (filter (\<lambda>i. layerIndex (cels fr ! i) \<noteq> 1) cs) r"
  using assms
proof (induction cs arbitrary: r)
  case Nil
  then show ?case by simp
next
  case (Cons i rest)
  have hid: "\<not> isLayerVisible r 1"
    using Cons.prems by (simp add: isLayerVisible_def)
  have step: "renderCels fr rest r'
                = renderCels fr (filter (\<lambda>i. layerIndex (cels fr ! i) \<noteq> 1) rest) r'"
    if "writeCel r i = Some (Inr r')" for r'
    using Cons.IH [of r'] Cons.prems writeCel_keeps [OF that] by simp
  show ?case
  proof (cases "layerIndex (cels fr ! i) = 1")
    case True
    then show ?thesis using hid Cons.IH [OF Cons.prems] by simp
  next
    case False
    then show ?thesis using step Cons.IH [OF Cons.prems]
      by (auto split: option.splits sum.splits)
  qed
qed

text \<open>
  C8, as the code has it. For an index that has a layer, isLayerVisible is the caller's
  override when the map holds one for the index, otherwise bit 0 of a numeric flags value
  (the visible property of a flags object, true for any other flags value). With the
  override of layer 1 set to false, the cel loop, and so forceRender, writes exactly the
  cels it would write if the cels of layer 1 were not in its list, whatever the flags of
  layer 1. setLayerVisibility stores the override and calls renderFrame: when at least
  100 ms have passed since the last render, the new pass leaves out the cels of layer 1;
  called earlier, it returns the renderer with the override stored and the canvas as it
  was.
\<close>

theorem isLayerVisible_override_then_flag:
  assumes "aseData r = Some d" and "li < length (layers d)"
  shows "isLayerVisible r li =
           (case layerVisibility r li of
              Some v \<Rightarrow> v
            | None \<Rightarrow>
                (case flags (layers d ! li) of
                   FlagsNumber n \<Rightarrow> bit n 0
                 | FlagsObject b \<Rightarrow> b
                 | FlagsOther \<Rightarrow> True))
       \<and> (1 < length (layers d) \<and> layerVisibility r 1 = Some False
            \<longrightarrow> renderCels fr cs r
                  = renderCels fr (filter (\<lambda>i. layerIndex (cels fr ! i) \<noteq> 1) cs) r)
       \<and> (1 < length (layers d) \<and> k < length (frames d)
              \<and> layerVisibility r 1 = Some False
            \<longrightarrow> forceRender r k
                  = renderCels (frames d ! k)
                      (filter (\<lambda>i. layerIndex (cels (frames d ! k) ! i) \<noteq> 1)
                         [0..<length (cels (frames d ! k))])
                      (fitToContainer (clearCanvas (r\<lparr>currentFrame := k\<rparr>))))
       \<and> (1 < length (layers d) \<and> currentFrame r < length (frames d)
              \<and> 100 \<le> now - lastRenderTime r
            \<longrightarrow> setLayerVisibility now r 1 False
                  = renderCels (frames d ! currentFrame r)
                      (filter (\<lambda>i. layerIndex (cels (frames d ! currentFrame r) ! i) \<noteq> 1)
                         [0..<length (cels (frames d ! currentFrame r))])
                      (fitToContainer (clearCanvas
                         (r\<lparr>layerVisibility := (layerVisibility r)(1 \<mapsto> False),
                            lastRenderTime := now\<rparr>))))
       \<and> (now - lastRenderTime r < 100
            \<longrightarrow> setLayerVisibility now r 1 False
                  = Some (Inr (r\<lparr>layerVisibility := (layerVisibility r)(1 \<mapsto> False)\<rparr>)))"
proof -
  have policy: "isLayerVisible r li =
           (case layerVisibility r li of
              Some v \<Rightarrow> v
            | None \<Rightarrow>
                (case flags (layers d ! li) of
                   FlagsNumber n \<Rightarrow> bit n 0
                 | FlagsObject b \<Rightarrow> b
                 | FlagsOther \<Rightarrow> True))"
    using assms
    by (auto simp: isLayerVisible_def and_one_eq bit_0 mod_2_eq_odd
             split: option.splits flagsValue.splits)
  have hidden: "renderCels fr' cs' p
                  = renderCels fr' (filter (\<lambda>i. layerIndex (cels fr' ! i) \<noteq> 1) cs') p"
    if "aseData p = Some d" "1 < length (layers d)" "layerVisibility p 1 = Some False"
    for fr' cs' p
    using that by (rule renderCels_hidden)
  have force: "forceRender r k
                  = renderCels (frames d ! k)
                      (filter (\<lambda>i. layerIndex (cels (frames d ! k) ! i) \<noteq> 1)
                         [0..<length (cels (frames d ! k))])
                      (fitToContainer (clearCanvas (r\<lparr>currentFrame := k\<rparr>)))"
    if "1 < length (layers d)" "k < length (frames d)" "layerVisibility r 1 = Some False"
  proof -
    let ?p = "fitToContainer (clearCanvas (r\<lparr>currentFrame := k\<rparr>))"
    have "aseData ?p = Some d" "layerVisibility ?p 1 = Some False"
      using assms(1) that(3) by (simp_all add: fitToContainer_def clearCanvas_def)
    from hidden [OF this(1) that(1) this(2)] show ?thesis
      using assms(1) that(2) by (simp add: forceRender_def Let_def)
  qed
  have setter: "setLayerVisibility now r 1 False
                  = renderCels (frames d ! currentFrame r)
                      (filter (\<lambda>i. layerIndex (cels (frames d ! currentFrame r) ! i) \<noteq> 1)
                         [0..<length (cels (frames d ! currentFrame r))])
                      (fitToContainer (clearCanvas
                         (r\<lparr>layerVisibility := (layerVisibility r)(1 \<mapsto> False),
                            lastRenderTime := now\<rparr>)))"
    if "1 < length (layers d)" "currentFrame r < length (frames d)"
       "100 \<le> now - lastRenderTime r"
  proof -
    let ?p = "fitToContainer (clearCanvas
                (r\<lparr>layerVisibility := (layerVisibility r)(1 \<mapsto> False),
                   lastRenderTime := now\<rparr>))"
    have "aseData ?p = Some d" "layerVisibility ?p 1 = Some False"
      using assms(1) by (simp_all add: fitToContainer_def clearCanvas_def)
    from hidden [OF this(1) that(1) this(2)] show ?thesis
      using assms(1) that(2,3)
      by (simp add: setLayerVisibility_def renderFrame_def Let_def)
  qed
  have limited: "setLayerVisibility now r 1 False
                  = Some (Inr (r\<lparr>layerVisibility := (layerVisibility r)(1 \<mapsto> False)\<rparr>))"
    if "now - lastRenderTime r < 100"
    using assms(1) that by (simp add: setLayerVisibility_def renderFrame_def Let_def)
  show ?thesis
    using policy hidden [OF assms(1)] force setter limited by blast
qed

theorem isLayerVisible_override_then_flag_witness:
  "isLayerVisible (newRenderer twoLayerDoc) 1
   \<and> \<not> isLayerVisible (renderedTwoLayer\<lparr>layerVisibility := [1 \<mapsto> False]\<rparr>) 1
   \<and> drawn (setLayerVisibility 1200 renderedTwoLayer 1 False)
     = Some (Inr [\<lparr>image = [1, 2, 3, 4], imageW = 1, imageH = 1, dx = 0, dy = 0,
                    under = Fitted 240 240 2 2 False\<rparr>])
   \<and> setLayerVisibility 1050 renderedTwoLayer 1 False
     = Some (Inr (renderedTwoLayer\<lparr>layerVisibility := [1 \<mapsto> False]\<rparr>))
   \<and> drawn (forceRender (renderedTwoLayer\<lparr>layerVisibility := [1 \<mapsto> False]\<rparr>) 0)
     = Some (Inr [\<lparr>image = [1, 2, 3, 4], imageW = 1, imageH = 1, dx = 0, dy = 0,
                    under = Fitted 240 240 2 2 False\<rparr>])"
proof -
  let ?r = "newRenderer twoLayerDoc"
  let ?t = renderedTwoLayer
  let ?h = "?t\<lparr>layerVisibility := [1 \<mapsto> False]\<rparr>"
  let ?fr = "frames twoLayerDoc ! 0"
  let ?ps = "fitToContainer (clearCanvas
               (?t\<lparr>layerVisibility := (layerVisibility ?t)(1 \<mapsto> False),
                   lastRenderTime := 1200\<rparr>))"
  let ?pf = "fitToContainer (clearCanvas (?h\<lparr>currentFrame := 0\<rparr>))"
  have len: "1 < length (layers twoLayerDoc)"
    by (simp add: twoLayerDoc_def example_defs)
  have adr: "aseData ?r = Some twoLayerDoc" and adt: "aseData ?t = Some twoLayerDoc"
    and adh: "aseData ?h = Some twoLayerDoc"
    by (simp_all add: newRenderer_def renderedTwoLayer_def)
  have cf: "currentFrame ?t = 0" and lt: "lastRenderTime ?t = 1000"
    and lv: "layerVisibility ?t = Map.empty"
    by (simp_all add: newRenderer_def renderedTwoLayer_def)
  have fl: "frames twoLayerDoc \<noteq> []"
    by (simp add: twoLayerDoc_def example_defs)
  have flt: "filter (\<lambda>i. layerIndex (cels ?fr ! i) \<noteq> 1) [0..<length (cels ?fr)] = [0]"
    by (simp add: twoLayerDoc_def example_defs upt_rec)
  have "isLayerVisible ?r 1 =
           (case layerVisibility ?r 1 of
              Some v \<Rightarrow> v
            | None \<Rightarrow>
                (case flags (layers twoLayerDoc ! 1) of
                   FlagsNumber n \<Rightarrow> bit n 0
                 | FlagsObject b \<Rightarrow> b
                 | FlagsOther \<Rightarrow> True))"
    by (rule isLayerVisible_override_then_flag [OF adr len, THEN conjunct1])
  also have "\<dots> = True"
    by (simp add: twoLayerDoc_def example_defs bit_0)
  finally have a: "isLayerVisible ?r 1" by simp
  have "isLayerVisible ?h 1 =
           (case layerVisibility ?h 1 of
              Some v \<Rightarrow> v
            | None \<Rightarrow>
                (case flags (layers twoLayerDoc ! 1) of
                   FlagsNumber n \<Rightarrow> bit n 0
                 | FlagsObject b \<Rightarrow> b
                 | FlagsOther \<Rightarrow> True))"
    by (rule isLayerVisible_override_then_flag [OF adh len, THEN conjunct1])
  also have "\<dots> = False"
    by simp
  finally have b: "\<not> isLayerVisible ?h 1" by simp
  have "setLayerVisibility 1200 ?t 1 False
          = renderCels (frames twoLayerDoc ! currentFrame ?t)
              (filter (\<lambda>i. layerIndex (cels (frames twoLayerDoc ! currentFrame ?t) ! i) \<noteq> 1)
                 [0..<length (cels (frames twoLayerDoc ! currentFrame ?t))]) ?ps"
    using isLayerVisible_override_then_flag [OF adt len, where now = 1200, THEN conjunct2, THEN conjunct2,
        THEN conjunct2, THEN conjunct1]
      len fl
    by (simp add: cf lt)
  then have s1: "setLayerVisibility 1200 ?t 1 False = renderCels ?fr [0] ?ps"
    unfolding cf flt .
  have e1: "drawn (renderCels ?fr [0] ?ps)
      = Some (Inr [\<lparr>image = [1, 2, 3, 4], imageW = 1, imageH = 1, dx = 0, dy = 0,
                    under = Fitted 240 240 2 2 False\<rparr>])"
    by (simp add: renderedTwoLayer_def twoLayerDoc_def example_defs render_defs
        decodePixels_32)
  have s2: "setLayerVisibility 1050 ?t 1 False = Some (Inr ?h)"
    using isLayerVisible_override_then_flag [OF adt len, where now = 1050, THEN conjunct2, THEN conjunct2,
        THEN conjunct2, THEN conjunct2]
    by (simp add: lt lv)
  have "forceRender ?h 0
          = renderCels ?fr (filter (\<lambda>i. layerIndex (cels ?fr ! i) \<noteq> 1)
                              [0..<length (cels ?fr)]) ?pf"
    using isLayerVisible_override_then_flag [OF adh len, where k = 0, THEN conjunct2, THEN conjunct2, THEN conjunct1]
      len fl
    by simp
  then have s3: "forceRender ?h 0 = renderCels ?fr [0] ?pf"
    unfolding flt .
  have e3: "drawn (renderCels ?fr [0] ?pf)
      = Some (Inr [\<lparr>image = [1, 2, 3, 4], imageW = 1, imageH = 1, dx = 0, dy = 0,
                    under = Fitted 240 240 2 2 False\<rparr>])"
    by (simp add: renderedTwoLayer_def twoLayerDoc_def example_defs render_defs
        decodePixels_32)
  show ?thesis
    unfolding s1 e1 s2 s3 e3 using a b by simp
qed

theorem setLayerVisibility_rate_limited_counterexample:
  "renderFrame 1000 (newRenderer twoLayerDoc) 0 = Some (Inr renderedTwoLayer)
   \<and> flags (layers twoLayerDoc ! 1) = FlagsNumber 1
   \<and> layerIndex (cels (frames twoLayerDoc ! 0) ! 1) = 1
   \<and> drawn (setLayerVisibility 1050 renderedTwoLayer 1 False)
     = Some (Inr [\<lparr>image = [1, 2, 3, 4], imageW = 1, imageH = 1, dx = 0, dy = 0,
                    under = Fitted 240 240 2 2 False\<rparr>,
                  \<lparr>image = [5, 6, 7, 8], imageW = 1, imageH = 1, dx = 1, dy = 0,
                    under = Fitted 240 240 2 2 False\<rparr>])"
  by (simp add: renderedTwoLayer_def setLayerVisibility_def twoLayerDoc_def example_defs
      render_defs decodePixels_32 upt_rec)

text \<open>
  C4, as the code has it. A cel whose layerIndex has no layer is visible, whatever the
  overrides say for that index: the cel loop calls writeCel on it as on any visible cel
  and goes on with what writeCel returns. The index alone raises nothing.
\<close>

theorem out_of_range_layer_is_painted:
  assumes "aseData r = Some d" and "length (layers d) \<le> layerIndex (cels fr ! i)"
  shows "isLayerVisible r (layerIndex (cels fr ! i))
       \<and> renderCels fr (i # rest) r =
           (case writeCel r i of
              None \<Rightarrow> None
            | Some (Inl e) \<Rightarrow> Some (Inl e)
            | Some (Inr r') \<Rightarrow> renderCels fr rest r')"
proof -
  have "isLayerVisible r (layerIndex (cels fr ! i))"
    using assms by (simp add: isLayerVisible_def)
  then show ?thesis by simp
qed

theorem out_of_range_layer_is_painted_witness:
  "isLayerVisible ((newRenderer noLayerDoc)\<lparr>layerVisibility := [0 \<mapsto> False]\<rparr>) 0
   \<and> drawn (renderCels (frames noLayerDoc ! 0) [0]
              ((newRenderer noLayerDoc)\<lparr>layerVisibility := [0 \<mapsto> False]\<rparr>))
     = Some (Inr [\<lparr>image = [9, 9, 9, 9], imageW = 1, imageH = 1, dx = 0, dy = 0,
                    under = Initial\<rparr>])"
proof -
  let ?r = "(newRenderer noLayerDoc)\<lparr>layerVisibility := [0 \<mapsto> False]\<rparr>"
  let ?fr = "frames noLayerDoc ! 0"
  have li: "layerIndex (cels ?fr ! 0) = 0"
    by (simp add: noLayerDoc_def example_defs)
  have "isLayerVisible ?r (layerIndex (cels ?fr ! 0))
       \<and> renderCels ?fr [0] ?r =
           (case writeCel ?r 0 of
              None \<Rightarrow> None
            | Some (Inl e) \<Rightarrow> Some (Inl e)
            | Some (Inr r') \<Rightarrow> renderCels ?fr [] r')"
    by (rule out_of_range_layer_is_painted [of ?r noLayerDoc])
       (simp_all add: noLayerDoc_def example_defs)
  moreover have "writeCel ?r 0
      = Some (Inr (?r\<lparr>canvas := [\<lparr>image = [9, 9, 9, 9], imageW = 1, imageH = 1, dx = 0,
                                     dy = 0, under = Initial\<rparr>]\<rparr>))"
    by (simp add: noLayerDoc_def example_defs render_defs decodePixels_32)
  ultimately show ?thesis by (simp add: li drawn_def)
qed

theorem out_of_range_layer_counterexample:
  "\<not> layerIndex (cels (frames noLayerDoc ! 0) ! 0) < length (layers noLayerDoc)
   \<and> drawn (forceRender (newRenderer noLayerDoc) 0)
     = Some (Inr [\<lparr>image = [9, 9, 9, 9], imageW = 1, imageH = 1, dx = 0, dy = 0,
                    under = Fitted 240 240 2 2 False\<rparr>])"
  by (simp add: noLayerDoc_def example_defs render_defs decodePixels_32 upt_rec)

subsection \<open>Linked cels\<close>

lemma getCelDataLoop_closed_aux:
  assumes closed: "\<forall>f\<in>S. \<exists>c g. celAt d f numCel = Inr c \<and> celType c = 1
                      \<and> linkedFrame c = Some g \<and> g \<in> S"
    and ret: "getCelDataLoop d0 n0 c0 = Some y0"
  shows "d0 = d \<longrightarrow> n0 = numCel \<longrightarrow> celType c0 = 1
           \<longrightarrow> (\<forall>g. linkedFrame c0 = Some g \<longrightarrow> g \<notin> S)"
proof (rule getCelDataLoop.raw_induct
    [where P = "\<lambda>d' n' c y. d' = d \<longrightarrow> n' = numCel \<longrightarrow> celType c = 1
                  \<longrightarrow> (\<forall>g. linkedFrame c = Some g \<longrightarrow> g \<notin> S)", OF _ ret])
  fix loop :: "aseReader \<Rightarrow> nat \<Rightarrow> cel \<Rightarrow> (error + cel) option" and d' n' c y
  assume IH: "\<And>a b c y. loop a b c = Some y \<Longrightarrow>
                 a = d \<longrightarrow> b = numCel \<longrightarrow> celType c = 1
                   \<longrightarrow> (\<forall>g. linkedFrame c = Some g \<longrightarrow> g \<notin> S)"
    and body: "(if celType c = 1 then
                  (case linkedFrame c of
                     None \<Rightarrow> Some (Inl TypeError)
                   | Some nextLFrame \<Rightarrow>
                       (case celAt d' nextLFrame n' of
                          Inl e \<Rightarrow> Some (Inl e)
                        | Inr c \<Rightarrow> loop d' n' c))
                else Some (Inr c)) = Some y"
  show "d' = d \<longrightarrow> n' = numCel \<longrightarrow> celType c = 1
          \<longrightarrow> (\<forall>g. linkedFrame c = Some g \<longrightarrow> g \<notin> S)"
  proof (intro impI allI notI)
    fix g
    assume eq: "d' = d" "n' = numCel" and lk: "celType c = 1" "linkedFrame c = Some g"
      and gS: "g \<in> S"
    from closed gS obtain c2 g2 where
      c2: "celAt d g numCel = Inr c2" "celType c2 = 1" "linkedFrame c2 = Some g2" "g2 \<in> S"
      by blast
    from body eq lk c2 have "loop d numCel c2 = Some y" by simp
    from IH [OF this] c2 show False by simp
  qed
qed

lemma getCelDataLoop_closed:
  assumes "\<forall>f\<in>S. \<exists>c g. celAt d f numCel = Inr c \<and> celType c = 1
                      \<and> linkedFrame c = Some g \<and> g \<in> S"
    and "celType c = 1" and "linkedFrame c = Some g" and "g \<in> S"
  shows "getCelDataLoop d numCel c = None"
proof (cases "getCelDataLoop d numCel c")
  case None
  then show ?thesis .
next
  case (Some y)
  from getCelDataLoop_closed_aux [OF assms(1) Some] assms(2-4) show ?thesis by simp
qed

lemma getCelData_closed:
  assumes closed: "\<forall>f\<in>S. \<exists>c g. celAt d f numCel = Inr c \<and> celType c = 1
                      \<and> linkedFrame c = Some g \<and> g \<in> S"
    and "f \<in> S"
  shows "getCelData d f numCel = None"
proof -
  from assms obtain c g where
    c: "celAt d f numCel = Inr c" "celType c = 1" "linkedFrame c = Some g" "g \<in> S"
    by blast
  have "getCelDataLoop d numCel c = None"
    using getCelDataLoop_closed [OF closed c(2-4)] .
  then show ?thesis using c by (simp add: getCelData_def)
qed

lemma cyclicDoc_closed:
  "\<forall>f\<in>{0, 1}. \<exists>c g. celAt cyclicDoc f 0 = Inr c \<and> celType c = 1
                      \<and> linkedFrame c = Some g \<and> g \<in> {0, 1}"
  by (simp add: celAt_def cyclicDoc_def example_defs)

lemma writeCel_closed:
  assumes "\<forall>f\<in>S. \<exists>c g. celAt d f numCel = Inr c \<and> celType c = 1
                      \<and> linkedFrame c = Some g \<and> g \<in> S"
    and "aseData r = Some d" and "currentFrame r \<in> S"
  shows "writeCel r numCel = None"
proof -
  from assms(1,3) obtain c g where
    c: "celAt d (currentFrame r) numCel = Inr c" "celType c = 1" "linkedFrame c = Some g"
       "g \<in> S"
    by blast
  have "getCelData d g numCel = None"
    using getCelData_closed [OF assms(1) c(4)] .
  then have "resolveCel d c numCel = None"
    using c by (simp add: resolveCel_def)
  then show ?thesis using assms(2) c by (simp add: writeCel_def)
qed

lemma isLayerVisible_cong:
  assumes "aseData r' = aseData r" and "layerVisibility r' = layerVisibility r"
  shows "isLayerVisible r' li = isLayerVisible r li"
  unfolding isLayerVisible_def assms ..

lemma renderCels_reaches_cycle:
  assumes closed: "\<forall>f\<in>S. \<exists>c g. celAt d f numCel = Inr c \<and> celType c = 1
                      \<and> linkedFrame c = Some g \<and> g \<in> S"
    and d: "aseData p = Some d" and k: "currentFrame p = k" "k \<in> S"
    and vis: "isLayerVisible p (layerIndex (cels fr ! numCel))"
    and pre: "\<forall>i\<in>set before. \<exists>c. celAt d k i = Inr c
                 \<and> (\<forall>e. resolveCel d c i \<noteq> Some (Inl e))"
  shows "renderCels fr (before @ numCel # rest) p = None"
  using d k vis pre
proof (induction before arbitrary: p)
  case Nil
  have "writeCel p numCel = None"
    using writeCel_closed [OF closed Nil.prems(1)] Nil.prems(2,3) by simp
  then show ?case using Nil.prems(4) by simp
next
  case (Cons i more)
  from Cons.prems(5) obtain c where
    c: "celAt d k i = Inr c" "\<forall>e. resolveCel d c i \<noteq> Some (Inl e)"
    by auto
  have later: "renderCels fr (more @ numCel # rest) p' = None"
    if "aseData p' = aseData p" "layerVisibility p' = layerVisibility p"
       "currentFrame p' = currentFrame p" for p'
    using Cons.IH [of p'] Cons.prems that isLayerVisible_cong [OF that(1,2)] by simp
  show ?case
  proof (cases "isLayerVisible p (layerIndex (cels fr ! i))")
    case False
    then show ?thesis using later [of p] by simp
  next
    case True
    show ?thesis
    proof (cases "writeCel p i")
      case None
      then show ?thesis using True by simp
    next
      case (Some x)
      show ?thesis
      proof (cases x)
        case (Inl e)
        then have False
          using Some Cons.prems(1,2) c
          by (auto simp: writeCel_def split: option.splits sum.splits)
        then show ?thesis ..
      next
        case (Inr p')
        from writeCel_keeps [of p i p'] Some Inr
        have "renderCels fr (more @ numCel # rest) p' = None"
          by (intro later) simp_all
        then show ?thesis using True Some Inr by simp
      qed
    qed
  qed
qed

lemma upt_split_at: "n < m \<Longrightarrow> [0..<m] = [0..<n] @ n # [Suc n..<m]"
proof -
  assume "n < m"
  then have "[0..<m] = [0..<n] @ [n..<m]"
    using upt_add_eq_append [of 0 n "m - n"] by simp
  also have "[n..<m] = n # [Suc n..<m]"
    using \<open>n < m\<close> by (rule upt_conv_Cons)
  finally show ?thesis .
qed

lemma cyclicBehindDoc_closed:
  "\<forall>f\<in>{0, 1}. \<exists>c g. celAt cyclicBehindDoc f 1 = Inr c \<and> celType c = 1
                      \<and> linkedFrame c = Some g \<and> g \<in> {0, 1}"
  by (simp add: celAt_def cyclicBehindDoc_def example_defs)

text \<open>
  C1, as the code has it. The loop of getCelData has no hop bound and the renderer has no
  StructuralError. Take a set S of frames in which every cel at position numCel is a
  linked cel whose link stays in S (a cyclic chain: frame A links to B and B to A).
  Then writeCel on such a cel does not return: it yields neither an error nor a renderer,
  whatever the number of frames. A link to a frame or a cel position that does not exist
  ends the call with a TypeError. A render pass on a frame k of S does not return either
  (forceRender, and renderFrame when at least 100 ms have passed since the last render),
  when the layer of the cel is visible and resolving the cels before it in the frame
  raises nothing.
\<close>

theorem unterminated_chain_not_detected:
  assumes "aseData r = Some d"
  shows "((\<forall>f\<in>S. \<exists>c g. celAt d f numCel = Inr c \<and> celType c = 1
                      \<and> linkedFrame c = Some g \<and> g \<in> S) \<and> currentFrame r \<in> S
            \<longrightarrow> writeCel r numCel = None)
       \<and> (celAt d (currentFrame r) numCel = Inr c \<and> celType c = 1
              \<and> linkedFrame c = Some g \<and> celAt d g numCel = Inl e
            \<longrightarrow> writeCel r numCel = Some (Inl TypeError))
       \<and> ((\<forall>f\<in>S. \<exists>c g. celAt d f numCel = Inr c \<and> celType c = 1
                      \<and> linkedFrame c = Some g \<and> g \<in> S) \<and> k \<in> S
              \<and> isLayerVisible r (layerIndex (cels (frames d ! k) ! numCel))
              \<and> (\<forall>i<numCel. \<forall>c e. celAt d k i = Inr c
                                 \<longrightarrow> resolveCel d c i \<noteq> Some (Inl e))
            \<longrightarrow> forceRender r k = None
                \<and> (100 \<le> now - lastRenderTime r \<longrightarrow> renderFrame now r k = None))"
proof -
  have dangling: "writeCel r numCel = Some (Inl TypeError)"
    if "celAt d (currentFrame r) numCel = Inr c" "celType c = 1" "linkedFrame c = Some g"
       "celAt d g numCel = Inl e"
  proof -
    have "e = TypeError"
      using that(4) by (auto simp: celAt_def split: if_splits)
    then show ?thesis
      using assms that by (simp add: writeCel_def resolveCel_def getCelData_def)
  qed
  have pass: "forceRender r k = None
                \<and> (100 \<le> now - lastRenderTime r \<longrightarrow> renderFrame now r k = None)"
    if closed: "\<forall>f\<in>S. \<exists>c g. celAt d f numCel = Inr c \<and> celType c = 1
                      \<and> linkedFrame c = Some g \<and> g \<in> S"
      and k: "k \<in> S"
      and vis: "isLayerVisible r (layerIndex (cels (frames d ! k) ! numCel))"
      and pre: "\<forall>i<numCel. \<forall>c e. celAt d k i = Inr c
                                 \<longrightarrow> resolveCel d c i \<noteq> Some (Inl e)"
  proof -
    let ?fr = "frames d ! k"
    from closed k obtain c0 where "celAt d k numCel = Inr c0" by blast
    then have kf: "k < length (frames d)" and nc: "numCel < length (cels ?fr)"
      by (auto simp: celAt_def split: if_splits)
    have before: "\<forall>i\<in>set [0..<numCel]. \<exists>c. celAt d k i = Inr c
                 \<and> (\<forall>e. resolveCel d c i \<noteq> Some (Inl e))"
      using pre kf nc by (auto simp: celAt_def)
    have loop: "renderCels ?fr [0..<length (cels ?fr)] p = None"
      if "aseData p = Some d" "currentFrame p = k" "layerVisibility p = layerVisibility r"
      for p
    proof -
      have "isLayerVisible p (layerIndex (cels ?fr ! numCel))"
        using vis isLayerVisible_cong [of p r] that assms by simp
      from renderCels_reaches_cycle [OF closed that(1,2) k this before]
      show ?thesis using upt_split_at [OF nc] by simp
    qed
    have "forceRender r k = None"
      using assms kf
      by (simp add: forceRender_def Let_def loop fitToContainer_def clearCanvas_def)
    moreover have "renderFrame now r k = None" if "100 \<le> now - lastRenderTime r"
      using assms kf that
      by (simp add: renderFrame_def Let_def loop fitToContainer_def clearCanvas_def)
    ultimately show ?thesis by blast
  qed
  show ?thesis using writeCel_closed [OF _ assms] dangling pass by blast
qed

theorem unterminated_chain_not_detected_witness:
  "writeCel ((newRenderer cyclicDoc)\<lparr>currentFrame := 1\<rparr>) 0 = None
   \<and> writeCel (newRenderer danglingDoc) 0 = Some (Inl TypeError)
   \<and> forceRender (newRenderer cyclicBehindDoc) 0 = None
   \<and> renderFrame 500 (newRenderer cyclicBehindDoc) 0 = None"
proof -
  have a: "writeCel ((newRenderer cyclicDoc)\<lparr>currentFrame := 1\<rparr>) 0 = None"
    using unterminated_chain_not_detected
        [of "(newRenderer cyclicDoc)\<lparr>currentFrame := 1\<rparr>" cyclicDoc "{0, 1}" 0,
         THEN conjunct1]
      cyclicDoc_closed
    by (simp add: newRenderer_def)
  have b: "writeCel (newRenderer danglingDoc) 0 = Some (Inl TypeError)"
    using unterminated_chain_not_detected
        [of "newRenderer danglingDoc" danglingDoc _ 0 "linkedCel 0 0 0 5" 5 TypeError,
         THEN conjunct2, THEN conjunct1]
    by (simp add: newRenderer_def celAt_def danglingDoc_def exampleDoc_def newAseReader_def
        frameOf_def linkedCel_def)
  have ad: "aseData (newRenderer cyclicBehindDoc) = Some cyclicBehindDoc"
    by (simp add: newRenderer_def)
  have vis: "isLayerVisible (newRenderer cyclicBehindDoc)
               (layerIndex (cels (frames cyclicBehindDoc ! 0) ! 1))"
    by (simp add: isLayerVisible_def cyclicBehindDoc_def example_defs)
  have pre: "\<forall>i<1. \<forall>c e. celAt cyclicBehindDoc 0 i = Inr c
                        \<longrightarrow> resolveCel cyclicBehindDoc c i \<noteq> Some (Inl e)"
    by (simp add: celAt_def resolveCel_def cyclicBehindDoc_def exampleDoc_def
        newAseReader_def frameOf_def directCel_def)
  have last: "100 \<le> 500 - lastRenderTime (newRenderer cyclicBehindDoc)"
    by (simp add: newRenderer_def)
  have c: "forceRender (newRenderer cyclicBehindDoc) 0 = None
           \<and> renderFrame 500 (newRenderer cyclicBehindDoc) 0 = None"
    using unterminated_chain_not_detected [OF ad, where S = "{0, 1}" and numCel = 1 and k = 0 and now = 500,
        THEN conjunct2, THEN conjunct2]
      cyclicBehindDoc_closed vis pre last
    by blast
  from a b c show ?thesis by (simp only: simp_thms)
qed

theorem cyclic_chain_counterexample:
  "numFrames cyclicDoc = 2 \<and> forceRender (newRenderer cyclicDoc) 0 = None"
proof -
  let ?r = "fitToContainer (clearCanvas ((newRenderer cyclicDoc)\<lparr>currentFrame := 0\<rparr>))"
  let ?fr = "frames cyclicDoc ! 0"
  have w: "writeCel ?r 0 = None"
    by (rule writeCel_closed [where S = "{0, 1}" and d = cyclicDoc, OF cyclicDoc_closed])
       (simp_all add: fitToContainer_def clearCanvas_def newRenderer_def)
  have vis: "isLayerVisible ?r (layerIndex (cels ?fr ! 0))"
    by (simp add: isLayerVisible_def fitToContainer_def clearCanvas_def cyclicDoc_def
        example_defs)
  have loop: "renderCels ?fr [0] ?r = None"
    by (simp only: renderCels.simps vis if_True w option.case)
  have "forceRender (newRenderer cyclicDoc) 0 = renderCels ?fr [0] ?r"
    by (simp add: forceRender_def Let_def newRenderer_def cyclicDoc_def exampleDoc_def
        newAseReader_def frameOf_def upt_rec)
  with loop have "forceRender (newRenderer cyclicDoc) 0 = None"
    by (simp only:)
  then show ?thesis by (simp add: cyclicDoc_def example_defs)
qed




subsection \<open>What a render pass depends on\<close>

lemma paintCel_sameView:
  "sameView r1 r2 \<Longrightarrow> sameView (paintCel r1 d c) (paintCel r2 d c)"
  by (auto simp: sameView_def paintCel_def Let_def split: option.splits)

lemma writeCel_sameView:
  assumes "sameView r1 r2"
  shows "rel_option (rel_sum (=) sameView) (writeCel r1 i) (writeCel r2 i)"
proof -
  have eq: "aseData r1 = aseData r2" "currentFrame r1 = currentFrame r2"
    using assms by (simp_all add: sameView_def)
  show ?thesis
    unfolding writeCel_def eq
    by (auto split: option.splits sum.splits intro: paintCel_sameView [OF assms])
qed

lemma isLayerVisible_sameView:
  assumes "sameView r1 r2"
  shows "isLayerVisible r1 li = isLayerVisible r2 li"
proof -
  have eq: "aseData r1 = aseData r2" "layerVisibility r1 = layerVisibility r2"
    using assms by (simp_all add: sameView_def)
  show ?thesis unfolding isLayerVisible_def eq ..
qed

lemma renderCels_sameView:
  assumes "sameView r1 r2"
  shows "rel_option (rel_sum (=) sameView) (renderCels fr cs r1) (renderCels fr cs r2)"
  using assms
proof (induction cs arbitrary: r1 r2)
  case Nil
  then show ?case by simp
next
  case (Cons i rest)
  show ?case
  proof (cases "isLayerVisible r1 (layerIndex (cels fr ! i))")
    case False
    then show ?thesis
      using Cons isLayerVisible_sameView [OF Cons.prems] by simp
  next
    case True
    then have v2: "isLayerVisible r2 (layerIndex (cels fr ! i))"
      using isLayerVisible_sameView [OF Cons.prems] by simp
    have rel: "rel_option (rel_sum (=) sameView) (writeCel r1 i) (writeCel r2 i)"
      by (rule writeCel_sameView [OF Cons.prems])
    show ?thesis
    proof (cases "writeCel r1 i")
      case None
      with rel have "writeCel r2 i = None" by (cases "writeCel r2 i") simp_all
      with None True v2 show ?thesis by simp
    next
      case (Some x)
      with rel obtain y where y: "writeCel r2 i = Some y" "rel_sum (=) sameView x y"
        by (cases "writeCel r2 i") simp_all
      show ?thesis
      proof (cases x)
        case (Inl e)
        with y have "y = Inl e" by (cases y) simp_all
        with Some Inl y True v2 show ?thesis by simp
      next
        case (Inr b)
        with y obtain d where "y = Inr d" "sameView b d" by (cases y) simp_all
        with Some Inr y True v2 Cons.IH [of b d] show ?thesis by simp
      qed
    qed
  qed
qed

lemma drawn_sameView:
  "rel_option (rel_sum (=) sameView) a b \<Longrightarrow> drawn a = drawn b"
  by (auto simp: drawn_def sameView_def option.rel_sel rel_sum.simps map_option_case
           split: option.splits)

text \<open>
  C9, as the code has it. forceRender draws the same thing from any two renderers that
  hold the same document, overrides, flip flag and canvas size, whatever their last render
  time, current frame or previous canvas content. renderFrame draws what forceRender
  draws when at least 100 ms have passed since the last render; called earlier it returns
  at once and leaves the renderer, with its canvas, as it was.
\<close>

theorem render_depends_on_document_and_overrides:
  assumes "aseData r1 = Some d" and "aseData r2 = Some d" and "k < length (frames d)"
    and "layerVisibility r1 = layerVisibility r2" and "isFlipped r1 = isFlipped r2"
    and "canvasWidth r1 = canvasWidth r2" and "canvasHeight r1 = canvasHeight r2"
  shows "drawn (forceRender r1 k) = drawn (forceRender r2 k)
       \<and> (100 \<le> now - lastRenderTime r1
            \<longrightarrow> drawn (renderFrame now r1 k) = drawn (forceRender r1 k))
       \<and> (now - lastRenderTime r1 < 100 \<longrightarrow> renderFrame now r1 k = Some (Inr r1))"
proof -
  have a: "sameView (fitToContainer (clearCanvas (r1\<lparr>currentFrame := k\<rparr>)))
                    (fitToContainer (clearCanvas (r2\<lparr>currentFrame := k\<rparr>)))"
    using assms by (simp add: sameView_def fitToContainer_def clearCanvas_def)
  have b: "sameView
             (fitToContainer (clearCanvas (r1\<lparr>lastRenderTime := now, currentFrame := k\<rparr>)))
             (fitToContainer (clearCanvas (r1\<lparr>currentFrame := k\<rparr>)))"
    using assms by (simp add: sameView_def fitToContainer_def clearCanvas_def)
  have "drawn (forceRender r1 k) = drawn (forceRender r2 k)"
    using assms(1-3)
    by (simp add: forceRender_def Let_def drawn_sameView [OF renderCels_sameView [OF a]])
  moreover have "drawn (renderFrame now r1 k) = drawn (forceRender r1 k)"
    if "100 \<le> now - lastRenderTime r1"
    using assms(1,3) that
    by (simp add: forceRender_def renderFrame_def Let_def
        drawn_sameView [OF renderCels_sameView [OF b]])
  moreover have "renderFrame now r1 k = Some (Inr r1)" if "now - lastRenderTime r1 < 100"
    using assms(1,3) that by (simp add: renderFrame_def)
  ultimately show ?thesis by blast
qed

theorem render_depends_on_document_and_overrides_witness:
  "drawn (forceRender ((newRenderer twoLayerDoc)\<lparr>lastRenderTime := 1000, currentFrame := 7\<rparr>) 0)
     = drawn (forceRender (newRenderer twoLayerDoc) 0)
   \<and> drawn (renderFrame 1200 ((newRenderer twoLayerDoc)\<lparr>lastRenderTime := 1000\<rparr>) 0)
     = drawn (forceRender ((newRenderer twoLayerDoc)\<lparr>lastRenderTime := 1000\<rparr>) 0)
   \<and> renderFrame 1050 ((newRenderer twoLayerDoc)\<lparr>lastRenderTime := 1000\<rparr>) 0
     = Some (Inr ((newRenderer twoLayerDoc)\<lparr>lastRenderTime := 1000\<rparr>))"
proof -
  let ?r = "newRenderer twoLayerDoc"
  have len: "frames twoLayerDoc \<noteq> []"
    by (simp add: twoLayerDoc_def example_defs)
  have a: "drawn (forceRender (?r\<lparr>lastRenderTime := 1000, currentFrame := 7\<rparr>) 0)
             = drawn (forceRender ?r 0)"
    by (rule render_depends_on_document_and_overrides
          [of "?r\<lparr>lastRenderTime := 1000, currentFrame := 7\<rparr>" twoLayerDoc ?r 0,
           THEN conjunct1])
       (simp_all add: newRenderer_def len)
  note th = render_depends_on_document_and_overrides
    [of "?r\<lparr>lastRenderTime := 1000\<rparr>" twoLayerDoc "?r\<lparr>lastRenderTime := 1000\<rparr>" 0]
  have b: "drawn (renderFrame 1200 (?r\<lparr>lastRenderTime := 1000\<rparr>) 0)
             = drawn (forceRender (?r\<lparr>lastRenderTime := 1000\<rparr>) 0)"
    by (rule th [where now = 1200, THEN conjunct2, THEN conjunct1, rule_format])
       (simp_all add: newRenderer_def len)
  have c: "renderFrame 1050 (?r\<lparr>lastRenderTime := 1000\<rparr>) 0
             = Some (Inr (?r\<lparr>lastRenderTime := 1000\<rparr>))"
    by (rule th [where now = 1050, THEN conjunct2, THEN conjunct2, rule_format])
       (simp_all add: newRenderer_def len)
  from a b c show ?thesis by (simp only: simp_thms)
qed

theorem render_rate_limit_counterexample:
  "drawn (renderFrame 1050 ((newRenderer twoLayerDoc)\<lparr>lastRenderTime := 1000\<rparr>) 0)
     = Some (Inr [])
   \<and> drawn (renderFrame 1200 ((newRenderer twoLayerDoc)\<lparr>lastRenderTime := 1000\<rparr>) 0)
     = Some (Inr [\<lparr>image = [1, 2, 3, 4], imageW = 1, imageH = 1, dx = 0, dy = 0,
                    under = Fitted 240 240 2 2 False\<rparr>,
                  \<lparr>image = [5, 6, 7, 8], imageW = 1, imageH = 1, dx = 1, dy = 0,
                    under = Fitted 240 240 2 2 False\<rparr>])"
  by (simp add: twoLayerDoc_def example_defs render_defs decodePixels_32 upt_rec)

section \<open>Properties of the parser\<close>

lemma bnd_Inr:
  "bnd m f s = Inr r \<longleftrightarrow> (\<exists>x s1. m s = Inr (x, s1) \<and> f x s1 = Inr r)"
  by (auto simp: bnd_def split: sum.splits)

lemma keeps_ret [intro!, simp]: "keeps g (ret x)"
  by (simp add: keeps_def ret_def)

lemma keeps_bnd [intro!]: "keeps g m \<Longrightarrow> (\<And>x. keeps g (f x)) \<Longrightarrow> keeps g (bnd m f)"
  unfolding keeps_def bnd_Inr by metis

lemma keeps_if [intro!]: "keeps g a \<Longrightarrow> keeps g b \<Longrightarrow> keeps g (if c then a else b)"
  by simp

lemma keeps_modify: "(\<And>s. g (f s) = g s) \<Longrightarrow> keeps g (modify f)"
  by (auto simp: keeps_def modify_def)

lemma keeps_offset_free:
  assumes "\<And>s k. g (s\<lparr>offset := k\<rparr>) = g s"
  shows "keeps g readNextByteRaw" "keeps g readNextWord" "keeps g readNextShort"
    "keeps g readNextDWord" "keeps g readNextFixed" "keeps g (skipBytes n)"
  using assms
  by (auto simp: keeps_def readNextByteRaw_def readNextWord_def readNextShort_def
      readNextDWord_def readNextFixed_def skipBytes_def split: if_splits)

lemma keeps_readNextByte: "keeps g readNextByteRaw \<Longrightarrow> keeps g readNextByte"
  unfolding readNextByte_def by auto

lemma keeps_readBytesLoop: "keeps g readNextByteRaw \<Longrightarrow> keeps g (readBytesLoop n)"
  by (induction n) auto

lemma keeps_readNextRawBytes: "keeps g readNextByteRaw \<Longrightarrow> keeps g (readNextRawBytes n)"
  unfolding readNextRawBytes_def by (auto simp: keeps_readBytesLoop) (simp add: keeps_def)

lemma keeps_readNextString:
  "keeps g readNextByteRaw \<Longrightarrow> keeps g readNextWord \<Longrightarrow> keeps g readNextString"
  unfolding readNextString_def readNextBytes_def by (auto simp: keeps_readBytesLoop)

lemma yields_bnd: "(\<And>x. yields Q (f x)) \<Longrightarrow> yields Q (bnd m f)"
  unfolding yields_def bnd_Inr by metis

text \<open>
  A chunk of any type leaves alone every field of the reader other than the cursor, the
  layers, the tags, the palette and the colour profile.
\<close>

lemma keeps_readFrameChunk:
  assumes off: "\<And>s k. g (s\<lparr>offset := k\<rparr>) = g s"
    and lay: "\<And>s x. g (s\<lparr>layers := x\<rparr>) = g s"
    and tgs: "\<And>s x. g (s\<lparr>tags := x\<rparr>) = g s"
    and pal: "\<And>s x. g (s\<lparr>palette := x\<rparr>) = g s"
    and cpr: "\<And>s x. g (s\<lparr>colorProfile := x\<rparr>) = g s"
  shows "keeps g (readFrameChunk pako cs)"
proof -
  note prim = keeps_offset_free [of g, OF off]
  note byte = keeps_readNextByte [OF prim(1)]
  note str = keeps_readNextString [OF prim(1) prim(2)]
  note raw = keeps_readNextRawBytes [OF prim(1)]
  have chunk: "keeps g readChunk"
    unfolding readChunk_def by (intro keeps_bnd keeps_ret prim)
  have layer: "keeps g readLayerChunk"
    unfolding readLayerChunk_def
    by (intro keeps_bnd keeps_ret prim byte str keeps_modify) (simp add: lay)
  have cel: "keeps g (readCelChunk pako n)" for n
    unfolding readCelChunk_def
    by (intro keeps_bnd keeps_ret keeps_if prim byte raw)
  have profile: "keeps g readColorProfileChunk"
    unfolding readColorProfileChunk_def
    by (intro keeps_bnd keeps_ret prim keeps_modify) (simp add: cpr)
  have tag: "keeps g readFrameTag"
    unfolding readFrameTag_def
    by (intro keeps_bnd keeps_ret prim byte str raw keeps_modify) (simp add: tgs)
  have tagsn: "keeps g (readFrameTags n)" for n
    by (induction n) (auto intro: tag)
  have tagsc: "keeps g readFrameTagsChunk"
    unfolding readFrameTagsChunk_def by (intro keeps_bnd prim tagsn)
  have col: "keeps g readPaletteColor"
    unfolding readPaletteColor_def
    by (intro keeps_bnd keeps_ret keeps_if prim byte str)
  have cols: "keeps g (readPaletteColors n acc)" for n acc
    by (induction n arbitrary: acc) (auto intro: col)
  have palc: "keeps g readPaletteChunk"
    unfolding readPaletteChunk_def by (intro keeps_bnd keeps_ret prim cols)
  have setpal: "keeps g (modify (\<lambda>s. s\<lparr>palette := Some p\<rparr>))" for p
    by (rule keeps_modify) (simp add: pal)
  show ?thesis
    unfolding readFrameChunk_def
    by (intro keeps_bnd chunk)
       (auto intro!: prim layer cel profile tagsc palc setpal)
qed

lemma keeps_readFrameChunks:
  assumes "\<And>cs. keeps g (readFrameChunk pako cs)"
  shows "keeps g (readFrameChunks pako n cs)"
  using assms by (induction n arbitrary: cs) auto

lemma steps_after_keeps:
  assumes "keeps g m" and "\<And>x. steps (\<lambda>s s'. R (g s) s') (f x)"
  shows "steps (\<lambda>s s'. R (g s) s') (bnd m f)"
  using assms unfolding keeps_def steps_def bnd_Inr by metis

lemma readFrame_appends:
  "steps (\<lambda>s s'. length (frames s') = Suc (length (frames s)) \<and> numFrames s' = numFrames s)
     (readFrame pako)"
proof -
  let ?g = "\<lambda>s. (frames s, numFrames s)"
  have kc: "keeps ?g (readFrameChunks pako n cs)" for n cs
    by (rule keeps_readFrameChunks, rule keeps_readFrameChunk) simp_all
  note prim = keeps_offset_free [of ?g, simplified]
  have "steps (\<lambda>s s'. (\<lambda>(fs, nf) s'. length (frames s') = Suc (length fs)
                                      \<and> numFrames s' = nf) (?g s) s')
          (readFrame pako)"
    unfolding readFrame_def
    by (intro steps_after_keeps prim kc) (simp add: steps_def modify_def)
  then show ?thesis by (simp add: steps_def)
qed

lemma readFrames_appends:
  "steps (\<lambda>s s'. length (frames s') = length (frames s) + n \<and> numFrames s' = numFrames s)
     (readFrames pako n)"
proof (induction n)
  case 0
  then show ?case by (simp add: steps_def ret_def)
next
  case (Suc n)
  show ?case
    using Suc readFrame_appends [of pako]
    unfolding steps_def readFrames.simps bnd_Inr by fastforce
qed

lemma readHeader_result: "yields (\<lambda>v s'. v = numFrames s') readHeader"
  unfolding readHeader_def
  by (intro yields_bnd) (simp add: yields_def)

lemma readHeader_keeps_frames: "keeps frames readHeader"
proof -
  note prim = keeps_offset_free [of frames, simplified]
  note byte = keeps_readNextByte [OF prim(1)]
  have last: "keeps frames (\<lambda>s. Inr (numFrames s, s))"
    by (simp add: keeps_def)
  show ?thesis
    unfolding readHeader_def
    by (intro keeps_bnd prim byte last keeps_modify) simp_all
qed

subsection \<open>Evaluating the parser on a buffer\<close>

lemma readFrames_numeral:
  "readFrames pako (numeral k) = bnd (readFrame pako) (\<lambda>_. readFrames pako (pred_numeral k))"
  by (simp add: numeral_eq_Suc)

lemma readFrameChunks_numeral:
  "readFrameChunks pako (numeral k) cs =
     bnd (readFrameChunk pako cs) (\<lambda>cs'. readFrameChunks pako (pred_numeral k) cs')"
  by (simp add: numeral_eq_Suc)

lemma readBytesLoop_numeral:
  "readBytesLoop (numeral k) =
     bnd readNextByteRaw (\<lambda>b. bnd (readBytesLoop (pred_numeral k)) (\<lambda>bs. ret (b # bs)))"
  by (simp add: numeral_eq_Suc)

lemmas rd_defs = bnd_def ret_def modify_def inBounds_def byteAt_def readNextByteRaw_def
  readNextByte_def readNextWord_def readNextShort_def readNextDWord_def readNextFixed_def
  skipBytes_def readNextRawBytes_def readNextBytes_def readNextString_def

lemmas parse_defs = parse_def readHeader_def readFrame_def readFrameChunk_def readChunk_def
  readLayerChunk_def readCelChunk_def inflateCel_def skippedTypes_def
  readFrames_numeral readFrameChunks_numeral readBytesLoop_numeral

lemmas file_defs = exampleFile_def exampleHeader_def exampleFrame0_def exampleFrame1_def

lemma parse_exampleFile: "parse None (newAseReader exampleFile) = Inr ((), exampleDocument)"
  by (simp add: parse_defs rd_defs newAseReader_def file_defs exampleDocument_def nth_append)

lemma readHeader_count:
  assumes "readHeader (newAseReader buf) = Inr (nf, s1)"
  shows "nf = unat (buf ! 6) + 256 * unat (buf ! 7)"
  using assms
  by (simp add: readHeader_def rd_defs newAseReader_def split: if_splits)

text \<open>
  C5. When parse returns normally, the frames list of the reader has as many entries as
  the frame count of the header, the 16-bit word at byte 6 of the buffer: readHeader
  stores the count and adds no frame, and each of the numFrames calls of readFrame
  appends one frame.
\<close>

theorem parse_frame_count:
  assumes "parse pako (newAseReader buf) = Inr (u, s')"
  shows "length (frames s') = numFrames s'
       \<and> numFrames s' = unat (buf ! 6) + 256 * unat (buf ! 7)"
proof -
  from assms obtain nf s1 where
    hd: "readHeader (newAseReader buf) = Inr (nf, s1)" and
    fr: "readFrames pako nf s1 = Inr (u, s')"
    unfolding parse_def bnd_Inr by auto
  have "nf = numFrames s1"
    using hd readHeader_result by (auto simp: yields_def)
  moreover have "frames s1 = []"
    using hd readHeader_keeps_frames by (fastforce simp: keeps_def newAseReader_def)
  moreover have "length (frames s') = length (frames s1) + nf \<and> numFrames s' = numFrames s1"
    using fr readFrames_appends [of nf pako] unfolding steps_def by blast
  ultimately show ?thesis using readHeader_count [OF hd] by simp
qed

theorem parse_frame_count_witness:
  "parse None (newAseReader exampleFile) = Inr ((), exampleDocument)
   \<and> length (frames exampleDocument) = numFrames exampleDocument
   \<and> numFrames exampleDocument = 2"
  using parse_frame_count [OF parse_exampleFile] parse_exampleFile
  by (simp add: exampleDocument_def)

text \<open>
  C3. The switch of readFrame skips a chunk by its declared size only for the seven type
  codes it lists. For the type code 0x2023, which is neither listed nor decoded, the
  chunk header is read and nothing else: the cursor stays at byte 6, the start of the
  payload, although the chunk ends at byte 10. The next chunk header is then read from the
  payload bytes (size 0x04030201, type 6) and the cursor ends at byte 12. The chunk of the
  listed type 0x2020 at byte 10, read from its own start, is skipped to its end, byte 16.
\<close>

theorem unlisted_chunk_type_not_skipped:
  "readFrameChunk None [] (newAseReader unlistedChunk)
     = Inr ([], (newAseReader unlistedChunk)\<lparr>offset := 6\<rparr>)
   \<and> readChunk ((newAseReader unlistedChunk)\<lparr>offset := 6\<rparr>)
     = Inr ((67305985, 6), (newAseReader unlistedChunk)\<lparr>offset := 12\<rparr>)
   \<and> readFrameChunks None 2 [] (newAseReader unlistedChunk)
     = Inr ([], (newAseReader unlistedChunk)\<lparr>offset := 12\<rparr>)
   \<and> readFrameChunk None [] ((newAseReader unlistedChunk)\<lparr>offset := 10\<rparr>)
     = Inr ([], (newAseReader unlistedChunk)\<lparr>offset := 16\<rparr>)"
  by (simp add: parse_defs rd_defs newAseReader_def unlistedChunk_def)

subsection \<open>Reads that succeed\<close>

lemma succeeds_ret: "0 \<le> n \<Longrightarrow> succeeds n (ret x)"
  by (simp add: succeeds_def ret_def)

lemma succeeds_bnd:
  assumes "succeeds a m" and "a \<le> n" and "\<And>x. succeeds (n - a) (f x)"
  shows "succeeds n (bnd m f)"
  unfolding succeeds_def
proof (intro allI impI)
  fix s :: aseReader
  assume s: "0 \<le> offset s \<and> offset s + n \<le> int (length (dv s))"
  with assms(1,2) obtain x s1 where
    m: "m s = Inr (x, s1)" "dv s1 = dv s" "offset s \<le> offset s1" "offset s1 \<le> offset s + a"
    unfolding succeeds_def by (metis add.commute add_le_cancel_left order_trans)
  have "0 \<le> offset s1 \<and> offset s1 + (n - a) \<le> int (length (dv s1))"
    using s m by simp
  with assms(3) [of x] obtain v s2 where
    f: "f x s1 = Inr (v, s2)" "dv s2 = dv s1" "offset s1 \<le> offset s2"
       "offset s2 \<le> offset s1 + (n - a)"
    unfolding succeeds_def by blast
  show "\<exists>v s'. bnd m f s = Inr (v, s') \<and> dv s' = dv s \<and> offset s \<le> offset s'
                   \<and> offset s' \<le> offset s + n"
    using m f by (auto simp: bnd_def)
qed

lemma succeeds_prims:
  "succeeds 1 readNextByteRaw" "succeeds 2 readNextWord" "succeeds 2 readNextShort"
  "succeeds 4 readNextDWord" "succeeds 4 readNextFixed"
  by (auto simp: succeeds_def readNextByteRaw_def readNextWord_def readNextShort_def
      readNextDWord_def readNextFixed_def inBounds_def)

lemma succeeds_skipBytes: "0 \<le> n \<Longrightarrow> succeeds n (skipBytes n)"
  by (simp add: succeeds_def skipBytes_def)

lemma succeeds_readNextByte: "succeeds 1 readNextByte"
  unfolding readNextByte_def
  by (rule succeeds_bnd [OF succeeds_prims(1)]) (simp_all add: succeeds_ret)

lemma succeeds_readBytesLoop: "succeeds (int n) (readBytesLoop n)"
proof (induction n)
  case 0
  then show ?case by (simp add: succeeds_ret)
next
  case (Suc n)
  have "succeeds (int (Suc n) - 1) (bnd (readBytesLoop n) (\<lambda>bs. ret (b # bs)))" for b
    by (rule succeeds_bnd [OF Suc]) (simp_all add: succeeds_ret)
  then show ?case
    unfolding readBytesLoop.simps
    by (intro succeeds_bnd [OF succeeds_prims(1)]) simp_all
qed

lemma succeeds_readNextRawBytes: "0 \<le> k \<Longrightarrow> succeeds k (readNextRawBytes k)"
  using succeeds_readBytesLoop [of "nat k"] by (simp add: readNextRawBytes_def)

lemma readCelChunk_succeeds:
  assumes "26 \<le> chunkSize"
  shows "succeeds (int chunkSize - 6) (readCelChunk pako chunkSize)"
proof -
  have direct: "succeeds (int chunkSize - 22)
     (bnd readNextWord (\<lambda>cw. bnd readNextWord (\<lambda>ch.
        bnd (readNextRawBytes (int chunkSize - 26)) (\<lambda>buff. ret (mk cw ch buff)))))"
    for mk :: "nat \<Rightarrow> nat \<Rightarrow> byte list \<Rightarrow> cel"
    using assms
    by (intro succeeds_bnd [OF succeeds_prims(2)] succeeds_bnd [OF succeeds_readNextRawBytes]
        succeeds_ret) simp_all
  have linked: "succeeds (int chunkSize - 22) (bnd readNextWord (\<lambda>lf. ret (mk lf)))"
    for mk :: "nat \<Rightarrow> cel"
    using assms by (intro succeeds_bnd [OF succeeds_prims(2)] succeeds_ret) simp_all
  show ?thesis
    unfolding readCelChunk_def
    apply (rule succeeds_bnd [OF succeeds_prims(2)], use assms in simp)
    apply (rule succeeds_bnd [OF succeeds_prims(3)], use assms in simp)
    apply (rule succeeds_bnd [OF succeeds_prims(3)], use assms in simp)
    apply (rule succeeds_bnd [OF succeeds_readNextByte], use assms in simp)
    apply (rule succeeds_bnd [OF succeeds_prims(2)], use assms in simp)
    apply (rule succeeds_bnd [OF succeeds_skipBytes [of 7]], simp, use assms in simp)
    using direct linked by (simp add: algebra_simps)
qed

lemma readBytesLoop_length: "yields (\<lambda>bs s'. length bs = n) (readBytesLoop n)"
proof (induction n)
  case 0
  then show ?case by (simp add: yields_def ret_def)
next
  case (Suc n)
  then show ?case
    unfolding yields_def readBytesLoop.simps bnd_Inr ret_def by fastforce
qed

lemma readNextRawBytes_length:
  "yields (\<lambda>bs s'. int (length bs) = k) (readNextRawBytes k)"
  using readBytesLoop_length [of "nat k"]
  by (auto simp: readNextRawBytes_def yields_def)

lemma yields_bnd_ret:
  assumes "yields (\<lambda>v s. P v) m" and "\<And>x s. P x \<Longrightarrow> Q (f x) s"
  shows "yields Q (bnd m (\<lambda>x. ret (f x)))"
  using assms unfolding yields_def bnd_Inr ret_def by fastforce

lemma yields_if:
  "(c \<Longrightarrow> yields Q a) \<Longrightarrow> (\<not> c \<Longrightarrow> yields Q b) \<Longrightarrow> yields Q (if c then a else b)"
  by simp

lemma readCelChunk_payload:
  "yields (\<lambda>c s'. celType c = 0 \<longrightarrow>
              (\<exists>buff. rawCelData c = Some buff \<and> int (length buff) = int chunkSize - 26))
     (readCelChunk pako chunkSize)"
  unfolding readCelChunk_def
  apply (rule yields_bnd)+
  apply (rule yields_if)
   apply (rule yields_bnd, rule yields_bnd, rule yields_bnd_ret [OF readNextRawBytes_length])
   apply (simp add: inflateCel_def)
  apply (rule yields_bnd_ret [where P = "\<lambda>_. True"])
   apply (simp add: yields_def)
  apply simp
  done

text \<open>
  C7. At colour depth 32, a payload shorter than w*h*4 is copied whole into the image and
  the rest of the w*h*4 bytes stays zero; writeCel draws that image (the payload has to
  be non-empty: an empty one is not decoded at all, see C10). Reading the cel chunk does
  not fail either: given a chunk size of at least 26 and that many bytes in the buffer,
  readCelChunk returns a cel, and a raw cel carries the chunkSize - 26 payload bytes
  whatever its width and height say.
\<close>

theorem truncated_payload_zero_filled:
  assumes "length raw < cw * ch * 4"
  shows "decodePixels 32 pal cw ch raw
           = take (min (length raw) (cw * ch * 4)) raw
               @ replicate (cw * ch * 4 - min (length raw) (cw * ch * 4)) 0
       \<and> (raw \<noteq> [] \<and> colorDepth d = 32 \<and> rawCelData c = Some raw \<and> w c = Some cw
              \<and> h c = Some ch
            \<longrightarrow> canvas (paintCel r d c)
                  = canvas r @ [\<lparr>image = raw @ replicate (cw * ch * 4 - length raw) 0,
                                  imageW = cw, imageH = ch, dx = xpos c, dy = ypos c,
                                  under = ctxTransform r\<rparr>])
       \<and> (26 \<le> chunkSize \<and> 0 \<le> offset s
              \<and> offset s + int chunkSize - 6 \<le> int (length (dv s))
            \<longrightarrow> (\<exists>v s'. readCelChunk pako chunkSize s = Inr (v, s')
                    \<and> (celType v = 0
                         \<longrightarrow> (\<exists>buff. rawCelData v = Some buff
                                \<and> length buff = chunkSize - 26))))"
proof -
  have dec: "decodePixels 32 pal cw ch raw = raw @ replicate (cw * ch * 4 - length raw) 0"
    using assms by (simp add: decodePixels_32)
  have pos: "cw \<noteq> 0 \<and> ch \<noteq> 0"
    using assms by (cases cw; cases ch) simp_all
  have paint: "canvas (paintCel r d c)
                  = canvas r @ [\<lparr>image = raw @ replicate (cw * ch * 4 - length raw) 0,
                                  imageW = cw, imageH = ch, dx = xpos c, dy = ypos c,
                                  under = ctxTransform r\<rparr>]"
    if "raw \<noteq> []" "colorDepth d = 32" "rawCelData c = Some raw" "w c = Some cw"
       "h c = Some ch"
    using that pos assms by (simp add: paintCel_def Let_def decodePixels_32)
  have rd: "\<exists>v s'. readCelChunk pako chunkSize s = Inr (v, s')
                    \<and> (celType v = 0
                         \<longrightarrow> (\<exists>buff. rawCelData v = Some buff
                                \<and> length buff = chunkSize - 26))"
    if "26 \<le> chunkSize" "0 \<le> offset s"
       "offset s + int chunkSize - 6 \<le> int (length (dv s))"
  proof -
    from readCelChunk_succeeds [OF that(1), of pako] that(2,3)
    obtain v s' where ok: "readCelChunk pako chunkSize s = Inr (v, s')"
      unfolding succeeds_def by (metis add_diff_eq)
    from readCelChunk_payload [of chunkSize pako] ok that(1)
    have len: "celType v = 0 \<longrightarrow> (\<exists>buff. rawCelData v = Some buff
                                \<and> length buff = chunkSize - 26)"
      unfolding yields_def by (metis nat_int of_nat_diff of_nat_numeral)
    show ?thesis
      by (rule exI [of _ v], rule exI [of _ s']) (use ok len in simp)
  qed
  show ?thesis using assms dec paint rd by (simp add: min_def)
qed

theorem truncated_payload_zero_filled_witness:
  "decodePixels 32 None 2 2 [1, 2, 3, 4] = [1, 2, 3, 4] @ replicate 12 0
   \<and> canvas (paintCel (newRenderer exampleDocument) exampleDocument
               (cels (frames exampleDocument ! 0) ! 0))
     = [\<lparr>image = [1, 2, 3, 4] @ replicate 12 0, imageW = 2, imageH = 2, dx = 1, dy = - 1,
         under = Initial\<rparr>]
   \<and> (\<exists>v s'. readCelChunk None 30 ((newAseReader exampleFile)\<lparr>offset := 186\<rparr>)
               = Inr (v, s'))
   \<and> readCelChunk None 30 ((newAseReader exampleFile)\<lparr>offset := 186\<rparr>)
     = Inr (cels (frames exampleDocument ! 0) ! 0,
            (newAseReader exampleFile)\<lparr>offset := 210\<rparr>)"
proof -
  let ?c = "cels (frames exampleDocument ! 0) ! 0"
  let ?s = "(newAseReader exampleFile)\<lparr>offset := 186\<rparr>"
  have short: "length [1, 2, 3, 4 :: byte] < 2 * 2 * 4"
    by simp
  note th = truncated_payload_zero_filled [OF short, where pal = None and d = exampleDocument
      and c = ?c and r = "newRenderer exampleDocument" and chunkSize = 30 and s = ?s
      and pako = None]
  have a: "decodePixels 32 None 2 2 [1, 2, 3, 4] = [1, 2, 3, 4] @ replicate 12 0"
    using th [THEN conjunct1] by simp
  have b: "canvas (paintCel (newRenderer exampleDocument) exampleDocument ?c)
     = [\<lparr>image = [1, 2, 3, 4] @ replicate 12 0, imageW = 2, imageH = 2, dx = 1, dy = - 1,
         under = Initial\<rparr>]"
    using th [THEN conjunct2, THEN conjunct1]
    by (simp add: exampleDocument_def newRenderer_def)
  have len: "length (dv ?s) = 250"
    by (simp add: newAseReader_def file_defs)
  have c: "\<exists>v s'. readCelChunk None 30 ?s = Inr (v, s')"
    using th [THEN conjunct2, THEN conjunct2] len by auto
  have d: "readCelChunk None 30 ?s = Inr (?c, (newAseReader exampleFile)\<lparr>offset := 210\<rparr>)"
    by (simp add: parse_defs rd_defs newAseReader_def file_defs exampleDocument_def
        nth_append)
  from a b c d show ?thesis by (simp only: simp_thms)
qed

end
